(* ===== verification/Prelude.thy ===== *)
theory Prelude
  imports Main "HOL-Library.Word" "HOL-Library.Sublist"
begin

text \<open>
  Shared vocabulary of the development: the C++ failures the code can run into as values of
  \<open>cpp_error\<close>, the sum type that carries them, the operations of \<open>std::string\<close> the sources
  call, the characters the sources write as escapes, and the generic lemmas and fact
  collections the component theories share.
\<close>

section \<open>Fact collections\<close>

named_theorems res_simps \<open>equations and splittings of the result type\<close>
named_theorems stream_simps \<open>equations of the input stream on its readable part\<close>

section \<open>Failures and results\<close>

text \<open>
  One constructor per way the modelled code can leave its normal path:
  \<^item> \<open>NullDeref\<close>: a null \<open>unique_ptr\<close> or raw pointer is dereferenced (undefined behaviour);
  \<^item> \<open>EmptyContainer\<close>: \<open>back()\<close> or \<open>top()\<close> of an empty container (undefined behaviour);
  \<^item> \<open>OutOfRange\<close>: \<open>std::out_of_range\<close> from \<open>at\<close>, \<open>substr\<close> or \<open>erase\<close>;
  \<^item> \<open>LengthError\<close>: \<open>std::length_error\<close> from \<open>std::string::reserve\<close>;
  \<^item> \<open>RuntimeError\<close>, \<open>SystemError\<close>: the exceptions of that name, with their message;
  \<^item> \<open>NoReturn\<close>: a blocking call that never returns, so that nothing behind it is executed.
\<close>

datatype cpp_error =
    NullDeref
  | EmptyContainer
  | OutOfRange
  | LengthError
  | RuntimeError string
  | SystemError string
  | NoReturn

text \<open>What a \<open>catch (std::exception&)\<close> sees.\<close>

fun is_exception :: "cpp_error \<Rightarrow> bool" where
  "is_exception NullDeref = False"
| "is_exception EmptyContainer = False"
| "is_exception NoReturn = False"
| "is_exception _ = True"

type_synonym 'a res = "cpp_error + 'a"

definition rbind :: "'a res \<Rightarrow> ('a \<Rightarrow> 'b res) \<Rightarrow> 'b res" where
  "rbind m f = (case m of Inl e \<Rightarrow> Inl e | Inr x \<Rightarrow> f x)"

lemma rbind_simps [simp, res_simps]:
  "rbind (Inl e) f = Inl e"
  "rbind (Inr x) f = f x"
  by (simp_all add: rbind_def)

lemma rbind_eq_Inr_iff [res_simps]:
  "rbind m f = Inr y \<longleftrightarrow> (\<exists>x. m = Inr x \<and> f x = Inr y)"
  by (cases m) auto

lemma rbind_eq_Inl_iff [res_simps]:
  "rbind m f = Inl e \<longleftrightarrow> m = Inl e \<or> (\<exists>x. m = Inr x \<and> f x = Inl e)"
  by (cases m) auto

text \<open>A result that carries no failure.\<close>

definition succeeds :: "'a res \<Rightarrow> bool" where
  "succeeds r \<longleftrightarrow> (case r of Inl _ \<Rightarrow> False | Inr _ \<Rightarrow> True)"

lemma succeeds_simps [simp]: "succeeds (Inr x)" "\<not> succeeds (Inl e)"
  by (simp_all add: succeeds_def)

lemma succeeds_iff: "succeeds r \<longleftrightarrow> (\<exists>x. r = Inr x)"
  by (cases r) auto

lemma succeeds_rbind [res_simps]:
  "succeeds (rbind m f) \<longleftrightarrow> succeeds m \<and> (\<forall>x. m = Inr x \<longrightarrow> succeeds (f x))"
  by (cases m) auto

lemma succeedsE:
  assumes "succeeds r"
  obtains x where "r = Inr x"
  using assms by (auto simp: succeeds_iff)

section \<open>Characters\<close>

abbreviation ch_tab :: char where "ch_tab \<equiv> CHR 0x09"
abbreviation ch_lf :: char where "ch_lf \<equiv> CHR 0x0A"
abbreviation ch_cr :: char where "ch_cr \<equiv> CHR 0x0D"
abbreviation ch_space :: char where "ch_space \<equiv> CHR 0x20"
abbreviation ch_dquote :: char where "ch_dquote \<equiv> CHR 0x22"
abbreviation ch_squote :: char where "ch_squote \<equiv> CHR 0x27"
abbreviation ch_slash :: char where "ch_slash \<equiv> CHR 0x2F"
abbreviation ch_semi :: char where "ch_semi \<equiv> CHR 0x3B"
abbreviation ch_qmark :: char where "ch_qmark \<equiv> CHR 0x3F"
abbreviation ch_bslash :: char where "ch_bslash \<equiv> CHR 0x5C"
abbreviation ch_lbrace :: char where "ch_lbrace \<equiv> CHR 0x7B"
abbreviation ch_rbrace :: char where "ch_rbrace \<equiv> CHR 0x7D"
abbreviation ch_hash :: char where "ch_hash \<equiv> CHR 0x23"
abbreviation ch_dot :: char where "ch_dot \<equiv> CHR 0x2E"

text \<open>\<open>std::isspace\<close> in the C locale: space, \<open>\t\<close>, \<open>\n\<close>, \<open>\v\<close>, \<open>\f\<close>, \<open>\r\<close>.\<close>

definition isspace :: "char \<Rightarrow> bool" where
  "isspace c \<longleftrightarrow> c \<in> {CHR 0x20, CHR 0x09, CHR 0x0A, CHR 0x0B, CHR 0x0C, CHR 0x0D}"

text \<open>The integer \<open>EOF\<close> converted to \<open>char\<close>, as in \<open>char peeked_char = input->peek()\<close>.\<close>

definition to_char :: "char option \<Rightarrow> char" where
  "to_char r = (case r of Some c \<Rightarrow> c | None \<Rightarrow> CHR 0xFF)"

lemma to_char_simps [simp]: "to_char (Some c) = c" "to_char None = CHR 0xFF"
  by (simp_all add: to_char_def)

section \<open>Operations of std::string\<close>

text \<open>\<open>s.find(p)\<close>: index of the first occurrence of \<open>p\<close>, \<open>None\<close> for \<open>npos\<close>.\<close>

fun str_find :: "string \<Rightarrow> string \<Rightarrow> nat option" where
  "str_find [] p = (if p = [] then Some 0 else None)"
| "str_find (c # s) p = (if prefix p (c # s) then Some 0 else map_option Suc (str_find s p))"

text \<open>\<open>s.rfind(c)\<close> for a one-character needle: index of its last occurrence.\<close>

fun str_rfind :: "string \<Rightarrow> char \<Rightarrow> nat option" where
  "str_rfind [] c = None"
| "str_rfind (x # s) c =
     (case str_rfind s c of
        Some i \<Rightarrow> Some (Suc i)
      | None \<Rightarrow> if x = c then Some 0 else None)"

text \<open>\<open>s.substr(pos)\<close> and \<open>s.erase(pos)\<close> throw when \<open>pos\<close> is past the end.\<close>

definition str_substr :: "string \<Rightarrow> nat \<Rightarrow> string res" where
  "str_substr s pos = (if pos \<le> length s then Inr (drop pos s) else Inl OutOfRange)"

definition str_erase :: "string \<Rightarrow> nat \<Rightarrow> string res" where
  "str_erase s pos = (if pos \<le> length s then Inr (take pos s) else Inl OutOfRange)"

text \<open>
  \<open>s[i]\<close>: the terminating NUL at \<open>i = size()\<close>; beyond it the read is outside the string,
  and \<open>oob\<close> stands for whatever is found there.
\<close>

definition char_at :: "(nat \<Rightarrow> char) \<Rightarrow> string \<Rightarrow> nat \<Rightarrow> char" where
  "char_at oob s i = (if i < length s then s ! i else if i = length s then CHR 0x00 else oob i)"

text \<open>\<open>s.size() - 1\<close> in the 64-bit \<open>size_t\<close>, which wraps on the empty string.\<close>

definition size_minus_1 :: "string \<Rightarrow> nat" where
  "size_minus_1 s = (length s + 2 ^ 64 - 1) mod 2 ^ 64"

text \<open>\<open>s.at(s.size() - 1) = c\<close>: throws on the empty string.\<close>

definition set_last :: "string \<Rightarrow> char \<Rightarrow> string res" where
  "set_last s c = (if s = [] then Inl OutOfRange else Inr (butlast s @ [c]))"

lemma set_last_snoc [simp]: "set_last (s @ [x]) c = Inr (s @ [c])"
  by (simp add: set_last_def)

lemma str_find_Some_split:
  "str_find s p = Some i \<Longrightarrow> i + length p \<le> length s \<and> take (length p) (drop i s) = p"
proof (induction s arbitrary: i)
  case Nil
  then show ?case by (auto split: if_splits)
next
  case (Cons c s)
  show ?case
  proof (cases "prefix p (c # s)")
    case True
    then obtain zs where "c # s = p @ zs" by (rule prefixE)
    then have "length p \<le> length (c # s) \<and> take (length p) (c # s) = p" by simp
    with True Cons.prems show ?thesis by simp
  next
    case False
    with Cons show ?thesis by auto
  qed
qed

lemma str_find_single:
  "str_find s [c] = (if c \<in> set s then Some (length (takeWhile (\<lambda>x. x \<noteq> c) s)) else None)"
  by (induction s) auto

lemma str_rfind_None_iff: "str_rfind s c = None \<longleftrightarrow> c \<notin> set s"
  by (induction s) (auto split: option.splits)

lemma str_rfind_Some_iff:
  "str_rfind s c = Some i \<longleftrightarrow> i < length s \<and> s ! i = c \<and> c \<notin> set (drop (Suc i) s)"
proof (induction s arbitrary: i)
  case Nil
  then show ?case by simp
next
  case (Cons x s)
  show ?case
  proof (cases "str_rfind s c")
    case None
    then have "c \<notin> set s" by (simp add: str_rfind_None_iff)
    with None show ?thesis
      by (cases i) (auto dest: nth_mem)
  next
    case (Some j)
    then have j: "j < length s" "s ! j = c" "c \<notin> set (drop (Suc j) s)"
      using Cons.IH by auto
    then have mem: "c \<in> set s" by (metis nth_mem)
    show ?thesis
    proof (cases i)
      case 0
      with Some mem show ?thesis by simp
    next
      case (Suc k)
      have "str_rfind (x # s) c = Some i \<longleftrightarrow> str_rfind s c = Some k"
        using Some Suc by auto
      also have "\<dots> \<longleftrightarrow> k < length s \<and> s ! k = c \<and> c \<notin> set (drop (Suc k) s)"
        by (rule Cons.IH)
      finally show ?thesis using Suc by simp
    qed
  qed
qed

section \<open>Decimal numbers\<close>

text \<open>\<open>std::to_string\<close> and \<open>operator<<\<close> on non-negative integers.\<close>

definition digit_char :: "nat \<Rightarrow> char" where
  "digit_char n = char_of (48 + n)"

fun to_string :: "nat \<Rightarrow> string" where
  "to_string n =
     (if n < 10 then [digit_char n] else to_string (n div 10) @ [digit_char (n mod 10)])"

declare to_string.simps [simp del]

definition is_digit :: "char \<Rightarrow> bool" where
  "is_digit c \<longleftrightarrow> 48 \<le> (of_char c :: nat) \<and> (of_char c :: nat) \<le> 57"

definition digits_val :: "string \<Rightarrow> nat" where
  "digits_val ds = foldl (\<lambda>n c. 10 * n + (of_char c - 48)) 0 ds"

text \<open>
  \<open>std::stoi\<close> with base 10, which is \<open>strtol\<close>: leading white space, an optional sign, the
  longest run of digits; no digit is \<open>std::invalid_argument\<close>, a value outside the 32-bit
  \<open>int\<close> is \<open>std::out_of_range\<close>, and what follows the digits is ignored.
\<close>

datatype stoi_result = Stoi int | StoiInvalidArgument | StoiOutOfRange

definition stoi :: "string \<Rightarrow> stoi_result" where
  "stoi s =
     (let s1 = dropWhile isspace s;
          neg = (s1 \<noteq> [] \<and> hd s1 = CHR ''-'');
          s2 = (if s1 \<noteq> [] \<and> (hd s1 = CHR ''-'' \<or> hd s1 = CHR ''+'') then tl s1 else s1);
          ds = takeWhile is_digit s2;
          v = (if neg then - int (digits_val ds) else int (digits_val ds))
      in if ds = [] then StoiInvalidArgument
         else if - (2 ^ 31) \<le> v \<and> v < 2 ^ 31 then Stoi v else StoiOutOfRange)"

lemma of_char_digit_char: "n < 10 \<Longrightarrow> (of_char (digit_char n) :: nat) = 48 + n"
  by (simp add: digit_char_def)

lemma is_digit_digit_char: "n < 10 \<Longrightarrow> is_digit (digit_char n)"
  by (simp add: is_digit_def of_char_digit_char)

lemma digits_val_snoc: "digits_val (ds @ [c]) = 10 * digits_val ds + (of_char c - 48)"
  by (simp add: digits_val_def)

lemma to_string_nonempty [simp]: "to_string n \<noteq> []"
  by (subst to_string.simps) simp

lemma to_string_digits: "list_all is_digit (to_string n)"
proof (induction n rule: to_string.induct)
  case (1 n)
  then show ?case
    by (subst to_string.simps) (auto simp: is_digit_digit_char)
qed

lemma digits_val_to_string: "digits_val (to_string n) = n"
proof (induction n rule: to_string.induct)
  case (1 n)
  show ?case
  proof (cases "n < 10")
    case True
    then show ?thesis
      by (subst to_string.simps) (simp add: digits_val_def of_char_digit_char)
  next
    case False
    with 1 show ?thesis
      by (subst to_string.simps) (simp add: digits_val_snoc of_char_digit_char)
  qed
qed

lemma is_digit_not_space: "is_digit c \<Longrightarrow> \<not> isspace c \<and> c \<noteq> CHR ''-'' \<and> c \<noteq> CHR ''+''"
  by (auto simp: is_digit_def isspace_def)

lemma stoi_to_string: "n < 2 ^ 31 \<Longrightarrow> stoi (to_string n) = Stoi (int n)"
proof -
  assume n: "n < 2 ^ 31"
  obtain c ds where s: "to_string n = c # ds"
    by (cases "to_string n") auto
  have ds: "list_all is_digit (c # ds)"
    using to_string_digits [of n] s by simp
  then have drop: "dropWhile isspace (c # ds) = c # ds" and sign: "c \<noteq> CHR ''-''" "c \<noteq> CHR ''+''"
    using is_digit_not_space [of c] by auto
  have take: "takeWhile is_digit (c # ds) = c # ds"
    using ds by (simp add: list_all_iff takeWhile_eq_all_conv)
  have "digits_val (c # ds) = n"
    using digits_val_to_string [of n] s by simp
  moreover have "int n < 2 ^ 31"
    using n by simp
  ultimately show ?thesis
    using drop sign take s by (simp add: stoi_def Let_def)
qed

lemma stoi_range: "stoi s = Stoi v \<Longrightarrow> - (2 ^ 31) \<le> v \<and> v < 2 ^ 31"
  by (auto simp: stoi_def Let_def split: if_splits)

end
