(* ===== verification/Istream.thy ===== *)
theory Istream
  imports Prelude
begin

text \<open>
  The part of \<open>std::istream\<close> the configuration parser uses: \<open>good\<close>, \<open>get\<close>, \<open>peek\<close> and
  \<open>unget\<close>, with the state bits they read and set. A stream is its unread characters and the
  characters already extracted (most recent first), so that \<open>unget\<close> can put one back.
\<close>

record istream =
  rest :: "char list"
  consumed :: "char list"
  eofbit :: bool
  failbit :: bool
  badbit :: bool

definition good :: "istream \<Rightarrow> bool" where
  "good s \<longleftrightarrow> \<not> eofbit s \<and> \<not> failbit s \<and> \<not> badbit s"

text \<open>\<open>get()\<close>: at the end of the input both \<open>eofbit\<close> and \<open>failbit\<close> are set.\<close>

definition is_get :: "istream \<Rightarrow> char option \<times> istream" where
  "is_get s =
     (if good s then
        (case rest s of
           [] \<Rightarrow> (None, s\<lparr>eofbit := True, failbit := True\<rparr>)
         | c # cs \<Rightarrow> (Some c, s\<lparr>rest := cs, consumed := c # consumed s\<rparr>))
      else (None, s\<lparr>failbit := True\<rparr>))"

text \<open>\<open>peek()\<close>: at the end of the input only \<open>eofbit\<close> is set.\<close>

definition is_peek :: "istream \<Rightarrow> char option \<times> istream" where
  "is_peek s =
     (if good s then
        (case rest s of
           [] \<Rightarrow> (None, s\<lparr>eofbit := True\<rparr>)
         | c # cs \<Rightarrow> (Some c, s))
      else (None, s\<lparr>failbit := True\<rparr>))"

text \<open>\<open>unget()\<close> clears \<open>eofbit\<close> first; with nothing to put back it sets \<open>badbit\<close>.\<close>

definition is_unget :: "istream \<Rightarrow> istream" where
  "is_unget s =
     (let s = s\<lparr>eofbit := False\<rparr> in
      if good s then
        (case consumed s of
           [] \<Rightarrow> s\<lparr>badbit := True\<rparr>
         | c # cs \<Rightarrow> s\<lparr>rest := c # rest s, consumed := cs\<rparr>)
      else s\<lparr>failbit := True\<rparr>)"

text \<open>A stream in its good state, and the stream a freshly opened text gives.\<close>

definition reading :: "char list \<Rightarrow> char list \<Rightarrow> istream" where
  "reading done todo = \<lparr>rest = todo, consumed = done, eofbit = False, failbit = False, badbit = False\<rparr>"

definition open_text :: "string \<Rightarrow> istream" where
  "open_text txt = reading [] txt"

lemma good_reading [simp, stream_simps]: "good (reading d t)"
  by (simp add: good_def reading_def)

lemma reading_sel [simp, stream_simps]:
  "rest (reading d t) = t" "consumed (reading d t) = d"
  by (simp_all add: reading_def)

lemma good_iff_reading: "good s \<longleftrightarrow> s = reading (consumed s) (rest s)"
  by (cases s) (auto simp: good_def reading_def)

lemma is_get_reading [simp, stream_simps]:
  "is_get (reading d (c # t)) = (Some c, reading (c # d) t)"
  by (simp add: is_get_def) (simp add: reading_def)

lemma is_peek_reading [simp, stream_simps]:
  "is_peek (reading d (c # t)) = (Some c, reading d (c # t))"
  by (simp add: is_peek_def)

lemma is_unget_reading [simp, stream_simps]:
  "is_unget (reading (c # d) t) = reading d (c # t)"
  by (simp add: is_unget_def Let_def good_def reading_def)

lemma is_get_NoneD: "is_get s = (None, s') \<Longrightarrow> \<not> good s' \<and> rest s' = rest s"
  by (auto simp: is_get_def good_def split: if_splits list.splits)

lemma is_get_Some_iff:
  "is_get s = (Some c, s') \<longleftrightarrow>
     good s \<and> rest s = c # rest s' \<and> s' = reading (c # consumed s) (rest s')"
  by (cases s) (auto simp: is_get_def good_def reading_def split: if_splits list.splits)

lemma is_get_shortens: "(Some c, s') = is_get s \<Longrightarrow> length (rest s') < length (rest s)"
  using is_get_Some_iff [of s c s'] by simp

lemma is_unget_after_get:
  "(Some c, s') = is_get s \<Longrightarrow> length (rest (is_unget s')) = length (rest s)"
  using is_get_Some_iff [of s c s'] by (metis is_unget_reading reading_sel(1))

lemma is_get_at_end [simp, stream_simps]:
  "rest s = [] \<Longrightarrow> fst (is_get s) = None"
  by (simp add: is_get_def)

lemma is_peek_rest [simp]: "rest (snd (is_peek s)) = rest s"
  by (simp add: is_peek_def split: list.splits)

lemma is_get_rest_le: "length (rest (snd (is_get s))) \<le> length (rest s)"
  by (simp add: is_get_def split: list.splits)

end
