(* ===== verification/Tokenizer.thy ===== *)
theory Tokenizer
  imports Istream
begin

text \<open>
  The tokenizer of \<open>NginxConfigParser\<close> (\<open>src/parser.cc\<close>): \<open>ParseToken\<close> with its state
  machine over the input stream, \<open>consumeEscapeChar\<close> and \<open>removeQuotes\<close>. The stream and the
  \<open>value\<close> string, which the code updates through pointers, are passed and returned. Log
  statements have no effect on the modelled state and are left out.
\<close>

section \<open>Token types and tokenizer states\<close>

datatype token_type =
    TOKEN_TYPE_START
  | TOKEN_TYPE_NORMAL
  | TOKEN_TYPE_START_BLOCK
  | TOKEN_TYPE_END_BLOCK
  | TOKEN_TYPE_COMMENT
  | TOKEN_TYPE_STATEMENT_END
  | TOKEN_TYPE_EOF
  | TOKEN_TYPE_ERROR

datatype token_parser_state =
    TOKEN_STATE_INITIAL_WHITESPACE
  | TOKEN_STATE_SINGLE_QUOTE
  | TOKEN_STATE_DOUBLE_QUOTE
  | TOKEN_STATE_TOKEN_TYPE_COMMENT
  | TOKEN_STATE_TOKEN_TYPE_NORMAL

fun TokenTypeAsString :: "token_type \<Rightarrow> string" where
  "TokenTypeAsString TOKEN_TYPE_START = ''TOKEN_TYPE_START''"
| "TokenTypeAsString TOKEN_TYPE_NORMAL = ''TOKEN_TYPE_NORMAL''"
| "TokenTypeAsString TOKEN_TYPE_START_BLOCK = ''TOKEN_TYPE_START_BLOCK''"
| "TokenTypeAsString TOKEN_TYPE_END_BLOCK = ''TOKEN_TYPE_END_BLOCK''"
| "TokenTypeAsString TOKEN_TYPE_COMMENT = ''TOKEN_TYPE_COMMENT''"
| "TokenTypeAsString TOKEN_TYPE_STATEMENT_END = ''TOKEN_TYPE_STATEMENT_END''"
| "TokenTypeAsString TOKEN_TYPE_EOF = ''TOKEN_TYPE_EOF''"
| "TokenTypeAsString TOKEN_TYPE_ERROR = ''TOKEN_TYPE_ERROR''"

section \<open>Escapes and quotes\<close>

definition escape_chars :: string where
  "escape_chars = ''abfnrtv'' @ [ch_squote, ch_dquote, ch_qmark, ch_bslash]"

text \<open>
  Returns the error string (empty on success), the stream and the token. The guard on
  \<open>quote\<close>, the first-level escape and the second look for a doubly escaped quote are the
  three steps of the code.
\<close>

definition consumeEscapeChar ::
  "istream \<Rightarrow> string \<Rightarrow> char \<Rightarrow> (string \<times> istream \<times> string) res" where
  "consumeEscapeChar input value quote =
     (if \<not> (quote = ch_squote \<or> quote = ch_dquote) then
        Inr (''string cannot be quoted with given quote in the config'', input, value)
      else
        (let (p, input) = is_peek input; peeked_char = to_char p in
         if peeked_char \<notin> set escape_chars then
           Inr (''non-escape char following '' @ [ch_bslash] @ '' in config'', input, value)
         else
           (let (_, input) = is_get input in
            rbind (set_last value peeked_char) (\<lambda>value.
              if peeked_char = ch_bslash then
                (let (q, input) = is_peek input in
                 if q = Some quote then
                   (let (_, input) = is_get input in
                    rbind (set_last value quote) (\<lambda>value. Inr ([], input, value)))
                 else Inr ([], input, value))
              else Inr ([], input, value)))))"

definition removeQuotes :: "string \<Rightarrow> char \<Rightarrow> string" where
  "removeQuotes value quote =
     (if length value > 2 \<and> value ! 0 = quote \<and> value ! (length value - 1) = quote
      then tl (butlast value) else value)"

section \<open>ParseToken\<close>

text \<open>
  What one pass through the body of the loop does: return from \<open>ParseToken\<close>, or go round
  again with a state, the stream and the token read so far.
\<close>

datatype token_step =
    Return token_type istream string
  | Continue token_parser_state istream string

text \<open>The code of the two quoted states, which differ in their quote character only.\<close>

definition quoted_step ::
  "token_parser_state \<Rightarrow> char \<Rightarrow> char \<Rightarrow> istream \<Rightarrow> string \<Rightarrow> token_step res" where
  "quoted_step state quote c input value =
     (let value = value @ [c] in
      if c = ch_bslash then
        rbind (consumeEscapeChar input value quote) (\<lambda>(err, input, value).
          if err \<noteq> [] then Inr (Return TOKEN_TYPE_ERROR input value)
          else Inr (Continue state input value))
      else if c = quote then
        (let (p, input) = is_peek input; peeked_char = to_char p in
         if \<not> (isspace peeked_char \<or> peeked_char = ch_semi)
         then Inr (Return TOKEN_TYPE_ERROR input value)
         else Inr (Return TOKEN_TYPE_NORMAL input (removeQuotes value quote)))
      else Inr (Continue state input value))"

fun ParseToken_step ::
  "token_parser_state \<Rightarrow> char \<Rightarrow> istream \<Rightarrow> string \<Rightarrow> token_step res" where
  "ParseToken_step TOKEN_STATE_INITIAL_WHITESPACE c input value = Inr
     (if c = ch_lbrace then Return TOKEN_TYPE_START_BLOCK input [c]
      else if c = ch_rbrace then Return TOKEN_TYPE_END_BLOCK input [c]
      else if c = ch_hash then Continue TOKEN_STATE_TOKEN_TYPE_COMMENT input [c]
      else if c = ch_dquote then Continue TOKEN_STATE_DOUBLE_QUOTE input [c]
      else if c = ch_squote then Continue TOKEN_STATE_SINGLE_QUOTE input [c]
      else if c = ch_semi then Return TOKEN_TYPE_STATEMENT_END input [c]
      else if c = ch_space \<or> c = ch_tab \<or> c = ch_lf \<or> c = ch_cr
        then Continue TOKEN_STATE_INITIAL_WHITESPACE input value
      else Continue TOKEN_STATE_TOKEN_TYPE_NORMAL input (value @ [c]))"
| "ParseToken_step TOKEN_STATE_SINGLE_QUOTE c input value =
     quoted_step TOKEN_STATE_SINGLE_QUOTE ch_squote c input value"
| "ParseToken_step TOKEN_STATE_DOUBLE_QUOTE c input value =
     quoted_step TOKEN_STATE_DOUBLE_QUOTE ch_dquote c input value"
| "ParseToken_step TOKEN_STATE_TOKEN_TYPE_COMMENT c input value = Inr
     (if c = ch_lf \<or> c = ch_cr then Return TOKEN_TYPE_COMMENT input value
      else Continue TOKEN_STATE_TOKEN_TYPE_COMMENT input (value @ [c]))"
| "ParseToken_step TOKEN_STATE_TOKEN_TYPE_NORMAL c input value = Inr
     (if c = ch_space \<or> c = ch_tab \<or> c = ch_lf \<or>
         c = ch_semi \<or> c = ch_lbrace \<or> c = ch_rbrace
      then Return TOKEN_TYPE_NORMAL (is_unget input) value
      else Continue TOKEN_STATE_TOKEN_TYPE_NORMAL input (value @ [c]))"

text \<open>What follows the loop: the end of the file was reached.\<close>

definition ParseToken_end :: "token_parser_state \<Rightarrow> token_type" where
  "ParseToken_end state =
     (if state = TOKEN_STATE_SINGLE_QUOTE \<or> state = TOKEN_STATE_DOUBLE_QUOTE
      then TOKEN_TYPE_ERROR else TOKEN_TYPE_EOF)"

text \<open>A pass that continues never gives characters back, which is why the loop ends.\<close>

lemma consumeEscapeChar_rest_le:
  "consumeEscapeChar input value quote = Inr (err, input', value') \<Longrightarrow>
     length (rest input') \<le> length (rest input)"
  by (auto simp: consumeEscapeChar_def rbind_eq_Inr_iff is_get_def is_peek_def Let_def
      split: if_splits list.splits prod.splits)

lemma quoted_step_rest_le:
  "quoted_step st q c input value = Inr (Continue st' input' value') \<Longrightarrow>
     length (rest input') \<le> length (rest input)"
  by (auto simp: quoted_step_def rbind_eq_Inr_iff Let_def
      dest!: consumeEscapeChar_rest_le split: if_splits prod.splits)

lemma ParseToken_step_rest_le:
  "ParseToken_step st c input value = Inr (Continue st' input' value') \<Longrightarrow>
     length (rest input') \<le> length (rest input)"
  by (cases st) (auto simp: quoted_step_rest_le split: if_splits)

function ParseToken_loop ::
  "token_parser_state \<Rightarrow> istream \<Rightarrow> string \<Rightarrow> (token_type \<times> istream \<times> string) res" where
  "ParseToken_loop state input value =
     (if good input then
        (case is_get input of
           (None, input) \<Rightarrow> Inr (ParseToken_end state, input, value)
         | (Some c, input) \<Rightarrow>
             (case ParseToken_step state c input value of
                Inl e \<Rightarrow> Inl e
              | Inr (Return tt input value) \<Rightarrow> Inr (tt, input, value)
              | Inr (Continue state input value) \<Rightarrow> ParseToken_loop state input value))
      else Inr (ParseToken_end state, input, value))"
  by pat_completeness auto
termination
  by (relation "measure (\<lambda>(st, i, v). length (rest i))")
    (auto dest!: ParseToken_step_rest_le is_get_shortens)

declare ParseToken_loop.simps [simp del]

text \<open>
  \<open>input == nullptr\<close> is \<open>None\<close>. No caller passes a null \<open>value\<close>, so the token is a string.
\<close>

definition ParseToken ::
  "istream option \<Rightarrow> string \<Rightarrow> (token_type \<times> istream option \<times> string) res" where
  "ParseToken input value =
     (case input of
        None \<Rightarrow> Inr (TOKEN_TYPE_ERROR, None, value)
      | Some input \<Rightarrow>
          rbind (ParseToken_loop TOKEN_STATE_INITIAL_WHITESPACE input value)
            (\<lambda>(tt, input, value). Inr (tt, Some input, value)))"

section \<open>Unfolding the loop on a readable stream\<close>

lemma loop_Cons:
  "ParseToken_loop st (reading d (c # t)) v =
     (case ParseToken_step st c (reading (c # d) t) v of
        Inl e \<Rightarrow> Inl e
      | Inr (Return tt i v) \<Rightarrow> Inr (tt, i, v)
      | Inr (Continue st i v) \<Rightarrow> ParseToken_loop st i v)"
  by (subst ParseToken_loop.simps) simp

lemma loop_Nil:
  "\<exists>i. ParseToken_loop st (reading d []) v = Inr (ParseToken_end st, i, v) \<and> rest i = [] \<and> \<not> good i"
  by (subst ParseToken_loop.simps) (auto simp: is_get_def good_def)

lemmas loop_simps [stream_simps] = loop_Cons

section \<open>No exception leaves the tokenizer\<close>

lemma consumeEscapeChar_total: "value \<noteq> [] \<Longrightarrow> succeeds (consumeEscapeChar input value quote)"
  by (auto simp: consumeEscapeChar_def set_last_def Let_def split: prod.splits)

lemma quoted_step_total: "succeeds (quoted_step st q c input value)"
  using consumeEscapeChar_total [of "value @ [c]" input q]
  by (auto simp: quoted_step_def succeeds_iff Let_def split: prod.splits)

lemma ParseToken_step_total: "succeeds (ParseToken_step st c input value)"
  by (cases st) (auto simp: quoted_step_total)

lemma ParseToken_loop_total: "succeeds (ParseToken_loop st input value)"
proof (induction st input "value" rule: ParseToken_loop.induct)
  case (1 st input v)
  show ?case
  proof (cases "good input")
    case False
    then show ?thesis by (subst ParseToken_loop.simps) simp
  next
    case True
    obtain r input' where get: "is_get input = (r, input')" by fastforce
    show ?thesis
    proof (cases r)
      case None
      with True get show ?thesis by (subst ParseToken_loop.simps) simp
    next
      case (Some c)
      obtain step where step: "ParseToken_step st c input' v = Inr step"
        by (rule succeedsE [OF ParseToken_step_total])
      then show ?thesis
        using True get Some 1 by (subst ParseToken_loop.simps) (cases step, auto)
    qed
  qed
qed

lemma ParseToken_succeeds: "succeeds (ParseToken input value)"
  by (auto simp: ParseToken_def succeeds_rbind ParseToken_loop_total split: option.split)

text \<open>
  The induction every further fact about the loop goes through: a property of the initial
  and final states of a run, for the two ways it can end and for going round once more.
\<close>

lemma ParseToken_loop_rule:
  assumes run: "ParseToken_loop st input value = Inr (tt, input', value')"
    and at_end: "\<And>st i i' v. \<not> good i' \<Longrightarrow> rest i' = rest i \<Longrightarrow> P st i v (ParseToken_end st) i' v"
    and ret: "\<And>st i c i1 v tt i' v'. (Some c, i1) = is_get i \<Longrightarrow>
      ParseToken_step st c i1 v = Inr (Return tt i' v') \<Longrightarrow> P st i v tt i' v'"
    and again: "\<And>st i c i1 v st2 i2 v2 tt i' v'. (Some c, i1) = is_get i \<Longrightarrow>
      ParseToken_step st c i1 v = Inr (Continue st2 i2 v2) \<Longrightarrow>
      P st2 i2 v2 tt i' v' \<Longrightarrow> P st i v tt i' v'"
  shows "P st input value tt input' value'"
  using run
proof (induction st input "value" rule: ParseToken_loop.induct)
  case (1 st i v)
  show ?case
  proof (cases "good i")
    case False
    with "1.prems" show ?thesis
      by (subst (asm) ParseToken_loop.simps) (auto intro: at_end)
  next
    case True
    obtain r i1 where get: "is_get i = (r, i1)" by fastforce
    show ?thesis
    proof (cases r)
      case None
      with True get "1.prems" show ?thesis
        by (subst (asm) ParseToken_loop.simps) (auto intro!: at_end dest: is_get_NoneD)
    next
      case (Some c)
      obtain step where step: "ParseToken_step st c i1 v = Inr step"
        by (rule succeedsE [OF ParseToken_step_total])
      show ?thesis
      proof (cases step)
        case (Return tt2 i2 v2)
        with "1.prems" True get Some step show ?thesis
          by (subst (asm) ParseToken_loop.simps) (auto intro!: ret)
      next
        case (Continue st2 i2 v2)
        have "ParseToken_loop st2 i2 v2 = Inr (tt, input', value')"
          using "1.prems" True get Some step Continue
          by (subst (asm) ParseToken_loop.simps) simp
        with "1.IH" True get Some step Continue have "P st2 i2 v2 tt input' value'"
          by auto
        with get Some step Continue show ?thesis by (auto intro: again)
      qed
    qed
  qed
qed

section \<open>Progress and shape of the tokens\<close>

text \<open>What a returning pass can return, and what it leaves in the stream.\<close>

lemma quoted_step_Return:
  assumes "quoted_step st q c i v = Inr (Return tt i' v')"
  shows "rest i' = rest i \<and> (tt = TOKEN_TYPE_ERROR \<or>
    tt = TOKEN_TYPE_NORMAL \<and> c = q \<and> c \<noteq> ch_bslash \<and> v' = removeQuotes (v @ [q]) q)"
proof -
  have "rest i' = rest i" if "consumeEscapeChar i (v @ [c]) q = Inr (err, i', v')" "err \<noteq> []"
    for err
    using that by (auto simp: consumeEscapeChar_def is_peek_def Let_def rbind_eq_Inr_iff
        split: if_splits prod.splits list.splits)
  with assms show ?thesis
    by (auto simp: quoted_step_def Let_def rbind_eq_Inr_iff is_peek_def
        split: if_splits prod.splits list.splits)
qed

lemma quoted_step_Continue:
  assumes "quoted_step st q c i v = Inr (Continue st' i' v')" and "v \<noteq> []"
  shows "st' = st \<and> v' \<noteq> [] \<and> hd v' = hd v"
  using assms
  by (auto simp: quoted_step_def consumeEscapeChar_def set_last_def Let_def rbind_eq_Inr_iff
      split: if_splits prod.splits)

text \<open>The token read so far, by tokenizer state.\<close>

fun token_so_far :: "token_parser_state \<Rightarrow> string \<Rightarrow> bool" where
  "token_so_far TOKEN_STATE_INITIAL_WHITESPACE v \<longleftrightarrow> v = []"
| "token_so_far TOKEN_STATE_SINGLE_QUOTE v \<longleftrightarrow> v \<noteq> [] \<and> hd v = ch_squote"
| "token_so_far TOKEN_STATE_DOUBLE_QUOTE v \<longleftrightarrow> v \<noteq> [] \<and> hd v = ch_dquote"
| "token_so_far TOKEN_STATE_TOKEN_TYPE_COMMENT v \<longleftrightarrow> v \<noteq> []"
| "token_so_far TOKEN_STATE_TOKEN_TYPE_NORMAL v \<longleftrightarrow> v \<noteq> []"

lemma token_so_far_step:
  assumes "ParseToken_step st c i v = Inr (Continue st' i' v')" and "token_so_far st v"
  shows "token_so_far st' v' \<and> (st \<noteq> TOKEN_STATE_INITIAL_WHITESPACE \<longrightarrow> st' = st)"
  using assms by (cases st) (auto split: if_splits dest: quoted_step_Continue)

lemma removeQuotes_snoc:
  "v \<noteq> [] \<Longrightarrow> removeQuotes (v @ [q]) q = (if length v > 1 \<and> hd v = q then tl v else v @ [q])"
  by (cases v) (auto simp: removeQuotes_def nth_append)

lemma removeQuotes_nonempty: "v \<noteq> [] \<Longrightarrow> removeQuotes (v @ [q]) q \<noteq> []"
  by (simp add: removeQuotes_snoc) (cases v, auto)

abbreviation final_token :: "token_type \<Rightarrow> bool" where
  "final_token tt \<equiv> tt = TOKEN_TYPE_EOF \<or> tt = TOKEN_TYPE_ERROR"

lemma ParseToken_step_Return:
  assumes "ParseToken_step st c i v = Inr (Return tt i' v')" and "token_so_far st v"
  shows "tt \<noteq> TOKEN_TYPE_START \<and> tt \<noteq> TOKEN_TYPE_EOF \<and> (tt = TOKEN_TYPE_NORMAL \<longrightarrow> v' \<noteq> []) \<and>
    (rest i' = rest i \<or> st = TOKEN_STATE_TOKEN_TYPE_NORMAL \<and> i' = is_unget i)"
  using assms
  by (cases st) (auto split: if_splits dest!: quoted_step_Return simp: removeQuotes_nonempty)

text \<open>One run of the loop: never \<open>START\<close>, no empty normal token, no characters given back
  beyond what was read, and at least one character used up by every token that is returned.\<close>

definition token_run_ok ::
  "token_parser_state \<Rightarrow> istream \<Rightarrow> string \<Rightarrow> token_type \<Rightarrow> istream \<Rightarrow> string \<Rightarrow> bool" where
  "token_run_ok st i v tt i' v' \<longleftrightarrow> (token_so_far st v \<longrightarrow>
     tt \<noteq> TOKEN_TYPE_START \<and> (tt = TOKEN_TYPE_NORMAL \<longrightarrow> v' \<noteq> []) \<and>
     length (rest i') \<le> length (rest i) \<and>
     (st = TOKEN_STATE_INITIAL_WHITESPACE \<and> \<not> final_token tt \<longrightarrow>
        length (rest i') < length (rest i)))"

lemma ParseToken_loop_ok:
  assumes "ParseToken_loop st i v = Inr (tt, i', v')"
  shows "token_run_ok st i v tt i' v'"
  using assms
proof (rule ParseToken_loop_rule)
  fix st and i i' :: istream and v
  assume "rest i' = rest i"
  then show "token_run_ok st i v (ParseToken_end st) i' v"
    by (simp add: token_run_ok_def ParseToken_end_def)
next
  fix st i c i1 v tt i' v'
  assume get: "(Some c, i1) = is_get i"
    and step: "ParseToken_step st c i1 v = Inr (Return tt i' v')"
  then show "token_run_ok st i v tt i' v'"
    using ParseToken_step_Return [OF step] is_get_shortens [OF get] is_unget_after_get [OF get]
    by (auto simp: token_run_ok_def)
next
  fix st i c i1 v st2 i2 v2 tt i' v'
  assume get: "(Some c, i1) = is_get i"
    and step: "ParseToken_step st c i1 v = Inr (Continue st2 i2 v2)"
    and run: "token_run_ok st2 i2 v2 tt i' v'"
  then show "token_run_ok st i v tt i' v'"
    using token_so_far_step [OF step] is_get_shortens [OF get] ParseToken_step_rest_le [OF step]
    by (auto simp: token_run_ok_def)
qed

section \<open>Writing a token so that it is read back\<close>

text \<open>
  The states, with their quote characters, in which a quoted string is read, and a printer
  for them: the quote character and the backslash are escaped with a backslash.
\<close>

definition quote_state :: "token_parser_state \<Rightarrow> char \<Rightarrow> bool" where
  "quote_state st q \<longleftrightarrow> st = TOKEN_STATE_SINGLE_QUOTE \<and> q = ch_squote \<or>
     st = TOKEN_STATE_DOUBLE_QUOTE \<and> q = ch_dquote"

definition escape_token :: "char \<Rightarrow> string \<Rightarrow> string" where
  "escape_token q s = concat (map (\<lambda>c. if c = ch_bslash \<or> c = q then [ch_bslash, c] else [c]) s)"

definition print_token :: "char \<Rightarrow> string \<Rightarrow> string" where
  "print_token q s = q # escape_token q s @ [q]"

text \<open>The strings a quoted token can carry: not empty, not ending in a backslash.\<close>

definition quotable :: "string \<Rightarrow> bool" where
  "quotable s \<longleftrightarrow> s \<noteq> [] \<and> last s \<noteq> ch_bslash"

lemma escape_token_simps [simp]:
  "escape_token q [] = []"
  "escape_token q (c # s) =
     (if c = ch_bslash \<or> c = q then [ch_bslash, c] else [c]) @ escape_token q s"
  by (simp_all add: escape_token_def)

lemma quote_state_step:
  "quote_state st q \<Longrightarrow> ParseToken_step st c i v = quoted_step st q c i v"
  by (auto simp: quote_state_def)

lemma quote_state_neq: "quote_state st q \<Longrightarrow> q \<noteq> ch_bslash \<and> (q = ch_squote \<or> q = ch_dquote)"
  by (auto simp: quote_state_def)

text \<open>A backslash and a character of \<open>escape_chars\<close> other than a backslash: the character
  replaces the backslash, unchanged.\<close>

lemma consumeEscapeChar_plain:
  assumes "q = ch_squote \<or> q = ch_dquote" and "c \<in> set escape_chars" and "c \<noteq> ch_bslash"
  shows "consumeEscapeChar (reading d (c # t)) (w @ [ch_bslash]) q =
    Inr ([], reading (c # d) t, w @ [c])"
  using assms by (simp add: consumeEscapeChar_def)

lemma consumeEscapeChar_bslash:
  assumes "q = ch_squote \<or> q = ch_dquote" and "x \<noteq> q"
  shows "consumeEscapeChar (reading d (ch_bslash # x # t)) (w @ [ch_bslash]) q =
    Inr ([], reading (ch_bslash # d) (x # t), w @ [ch_bslash])"
  using assms by (simp add: consumeEscapeChar_def escape_chars_def)

lemma loop_quoted_char:
  assumes "quote_state st q" and "c \<noteq> ch_bslash" and "c \<noteq> q"
  shows "ParseToken_loop st (reading d (c # t)) v = ParseToken_loop st (reading (c # d) t) (v @ [c])"
  using assms by (simp add: loop_Cons quote_state_step quoted_step_def)

lemma loop_quoted_quote:
  assumes "quote_state st q"
  shows "ParseToken_loop st (reading d (ch_bslash # q # t)) v =
    ParseToken_loop st (reading (q # ch_bslash # d) t) (v @ [q])"
proof -
  have "q \<in> set escape_chars" "q \<noteq> ch_bslash" "q = ch_squote \<or> q = ch_dquote"
    using assms by (auto simp: quote_state_def escape_chars_def)
  then show ?thesis
    using assms by (simp add: loop_Cons quote_state_step quoted_step_def consumeEscapeChar_plain)
qed

lemma loop_quoted_bslash:
  assumes "quote_state st q" and "x \<noteq> q"
  shows "ParseToken_loop st (reading d (ch_bslash # ch_bslash # x # t)) v =
    ParseToken_loop st (reading (ch_bslash # ch_bslash # d) (x # t)) (v @ [ch_bslash])"
  using assms quote_state_neq [OF assms(1)]
  by (simp add: loop_Cons [of st d] quote_state_step quoted_step_def consumeEscapeChar_bslash)

lemma escape_token_head:
  "s \<noteq> [] \<Longrightarrow> q \<noteq> ch_bslash \<Longrightarrow> \<exists>x t. escape_token q s = x # t \<and> x \<noteq> q"
  by (cases s) auto

text \<open>Reading an escaped string adds the string itself to the token.\<close>

lemma loop_escape_token:
  assumes "quote_state st q" and "s = [] \<or> last s \<noteq> ch_bslash"
  shows "ParseToken_loop st (reading d (escape_token q s @ q # t)) v =
    ParseToken_loop st (reading (rev (escape_token q s) @ d) (q # t)) (v @ s)"
  using assms(2)
proof (induction s arbitrary: d v)
  case Nil
  then show ?case by simp
next
  case (Cons c s)
  note q = quote_state_neq [OF assms(1)]
  have last: "s = [] \<or> last s \<noteq> ch_bslash"
    using Cons.prems by (cases s) auto
  consider "c = ch_bslash" | "c = q" | "c \<noteq> ch_bslash" "c \<noteq> q" by blast
  then show ?case
  proof cases
    case 1
    with Cons.prems have "s \<noteq> []" by auto
    then obtain x u where x: "escape_token q s = x # u" "x \<noteq> q"
      using q escape_token_head by blast
    then show ?thesis
      using 1 loop_quoted_bslash [OF assms(1) x(2), of d "u @ q # t" v]
        Cons.IH [OF last, of "ch_bslash # ch_bslash # d" "v @ [ch_bslash]"]
      by simp
  next
    case 2
    then show ?thesis
      using loop_quoted_quote [OF assms(1), of d "escape_token q s @ q # t" v] Cons.IH [OF last]
      by simp
  next
    case 3
    then show ?thesis
      using loop_quoted_char [OF assms(1)] Cons.IH [OF last] by simp
  qed
qed

text \<open>A closing quote is accepted before white space or a semicolon only.\<close>

definition closes_quote :: "char \<Rightarrow> bool" where
  "closes_quote c \<longleftrightarrow> isspace c \<or> c = ch_semi"

lemma loop_closing_quote:
  assumes "quote_state st q" and "closes_quote x" and "s \<noteq> []"
  shows "ParseToken_loop st (reading d (q # x # t)) (q # s) =
    Inr (TOKEN_TYPE_NORMAL, reading (q # d) (x # t), s)"
  using assms quote_state_neq [OF assms(1)] removeQuotes_snoc [of "q # s" q]
  by (auto simp: loop_Cons quote_state_step quoted_step_def closes_quote_def Let_def)

text \<open>From the initial state a printed token, and an undecorated one, are read back.\<close>

lemma loop_print_token:
  assumes "q = ch_squote \<or> q = ch_dquote" and "quotable s" and "closes_quote x"
  shows "ParseToken_loop TOKEN_STATE_INITIAL_WHITESPACE (reading d (print_token q s @ x # t)) [] =
    Inr (TOKEN_TYPE_NORMAL, reading (rev (print_token q s) @ d) (x # t), s)"
proof -
  define st where
    "st = (if q = ch_squote then TOKEN_STATE_SINGLE_QUOTE else TOKEN_STATE_DOUBLE_QUOTE)"
  have st: "quote_state st q"
    using assms(1) by (auto simp: st_def quote_state_def)
  have "ParseToken_loop TOKEN_STATE_INITIAL_WHITESPACE (reading d (print_token q s @ x # t)) [] =
      ParseToken_loop st (reading (q # d) (escape_token q s @ q # x # t)) [q]"
    using assms(1) by (auto simp: loop_Cons print_token_def st_def)
  also have "\<dots> = ParseToken_loop st (reading (rev (escape_token q s) @ q # d) (q # x # t)) (q # s)"
    using loop_escape_token [OF st, of s] assms(2) by (simp add: quotable_def)
  also have "\<dots> = Inr (TOKEN_TYPE_NORMAL, reading (q # rev (escape_token q s) @ q # d) (x # t), s)"
    using loop_closing_quote [OF st assms(3)] assms(2) by (simp add: quotable_def)
  finally show ?thesis by (simp add: print_token_def)
qed

text \<open>
  Undecorated tokens: the first character must not be one the initial state treats
  specially, no character may end the token.
\<close>

definition ends_token :: "char \<Rightarrow> bool" where
  "ends_token c \<longleftrightarrow> c \<in> {ch_space, ch_tab, ch_lf, ch_semi, ch_lbrace, ch_rbrace}"

definition starts_token :: "char \<Rightarrow> bool" where
  "starts_token c \<longleftrightarrow> \<not> ends_token c \<and> c \<notin> {ch_cr, ch_hash, ch_dquote, ch_squote}"

definition bare :: "string \<Rightarrow> bool" where
  "bare s \<longleftrightarrow> s \<noteq> [] \<and> starts_token (hd s) \<and> list_all (\<lambda>c. \<not> ends_token c) s"

lemma loop_normal_chars:
  "list_all (\<lambda>c. \<not> ends_token c) s \<Longrightarrow>
     ParseToken_loop TOKEN_STATE_TOKEN_TYPE_NORMAL (reading d (s @ t)) v =
     ParseToken_loop TOKEN_STATE_TOKEN_TYPE_NORMAL (reading (rev s @ d) t) (v @ s)"
  by (induction s arbitrary: d v) (auto simp: loop_Cons ends_token_def)

lemma loop_bare_token:
  assumes "bare s" and "ends_token x"
  shows "ParseToken_loop TOKEN_STATE_INITIAL_WHITESPACE (reading d (s @ x # t)) [] =
    Inr (TOKEN_TYPE_NORMAL, reading (rev s @ d) (x # t), s)"
proof -
  obtain c s' where s: "s = c # s'" using assms(1) by (auto simp: bare_def neq_Nil_conv)
  have "ParseToken_loop TOKEN_STATE_INITIAL_WHITESPACE (reading d (s @ x # t)) [] =
      ParseToken_loop TOKEN_STATE_TOKEN_TYPE_NORMAL (reading (c # d) (s' @ x # t)) [c]"
    using assms(1) s by (auto simp: loop_Cons bare_def starts_token_def ends_token_def)
  also have "\<dots> = ParseToken_loop TOKEN_STATE_TOKEN_TYPE_NORMAL (reading (rev s' @ c # d) (x # t)) s"
    using assms(1) s loop_normal_chars [of s'] by (simp add: bare_def)
  also have "\<dots> = Inr (TOKEN_TYPE_NORMAL, reading (rev s @ d) (x # t), s)"
    using assms(2) s by (auto simp: loop_Cons ends_token_def)
  finally show ?thesis .
qed

text \<open>White space in front of a token and comments up to the end of their line are skipped.\<close>

lemma loop_skip_space:
  "c \<in> {ch_space, ch_tab, ch_lf, ch_cr} \<Longrightarrow>
     ParseToken_loop TOKEN_STATE_INITIAL_WHITESPACE (reading d (c # t)) v =
     ParseToken_loop TOKEN_STATE_INITIAL_WHITESPACE (reading (c # d) t) v"
  by (auto simp: loop_Cons)

lemma loop_punctuation:
  "ParseToken_loop TOKEN_STATE_INITIAL_WHITESPACE (reading d (ch_semi # t)) v =
     Inr (TOKEN_TYPE_STATEMENT_END, reading (ch_semi # d) t, [ch_semi])"
  "ParseToken_loop TOKEN_STATE_INITIAL_WHITESPACE (reading d (ch_lbrace # t)) v =
     Inr (TOKEN_TYPE_START_BLOCK, reading (ch_lbrace # d) t, [ch_lbrace])"
  "ParseToken_loop TOKEN_STATE_INITIAL_WHITESPACE (reading d (ch_rbrace # t)) v =
     Inr (TOKEN_TYPE_END_BLOCK, reading (ch_rbrace # d) t, [ch_rbrace])"
  by (simp_all add: loop_Cons)

section \<open>Properties\<close>

text \<open>
  C30: A string that is not empty and does not end in a backslash, written between quotes with the
  quote character and the backslash escaped, is read back by \<open>ParseToken\<close> as one normal token
  with exactly that text when white space or a semicolon follows, and the stream stands behind
  the closing quote.
\<close>

theorem quoted_token_roundtrip:
  assumes "q = ch_squote \<or> q = ch_dquote" and "quotable s" and "closes_quote x"
  shows "ParseToken (Some (reading d (print_token q s @ x # t))) [] =
    Inr (TOKEN_TYPE_NORMAL, Some (reading (rev (print_token q s) @ d) (x # t)), s)"
  using loop_print_token [OF assms] by (simp add: ParseToken_def)

theorem quoted_token_roundtrip_witness:
  "ParseToken (Some (reading [] (print_token ch_dquote ''a b'' @ ch_semi # []))) [] =
     Inr (TOKEN_TYPE_NORMAL, Some (reading (rev (print_token ch_dquote ''a b'')) [ch_semi]), ''a b'')"
  using quoted_token_roundtrip [of ch_dquote "''a b''" ch_semi "[]" "[]"]
  by (simp add: quotable_def closes_quote_def)

text \<open>
  Inside quotes a backslash followed by one of the escape characters other than the backslash
  puts that very character into the token: \<open>\n\<close> is read as the letter \<open>n\<close>, not as a line feed.
\<close>

lemma escapes_keep_letter:
  assumes "q = ch_squote \<or> q = ch_dquote" and "c \<in> set escape_chars" and "c \<noteq> ch_bslash"
  shows "consumeEscapeChar (reading d (c # t)) (w @ [ch_bslash]) q = Inr ([], reading (c # d) t, w @ [c])"
  using assms by (rule consumeEscapeChar_plain)

lemma escapes_keep_letter_witness:
  "consumeEscapeChar (reading [] ''n'') ([ch_dquote] @ [ch_bslash]) ch_dquote =
     Inr ([], reading ''n'' [], [ch_dquote] @ ''n'')"
  using escapes_keep_letter [of ch_dquote "CHR ''n''" "[]" "[]" "[ch_dquote]"]
  by (simp add: escape_chars_def)

end
