(* ===== verification/Token_Source.thy ===== *)
theory Token_Source
  imports Tokenizer
begin

text \<open>
  The interface between the parser and the tokenizer: a source of tokens that runs dry. The
  locale states what the parser relies on, proves once that pulling tokens ends with the end
  of the file or an error after boundedly many pulls, and is interpreted on \<open>ParseToken\<close>.
\<close>

text \<open>At most \<open>n\<close> pulls, up to and including the final token.\<close>

fun pull :: "('s \<Rightarrow> token_type \<times> string \<times> 's) \<Rightarrow> nat \<Rightarrow> 's \<Rightarrow> (token_type \<times> string) list" where
  "pull nxt 0 s = []"
| "pull nxt (Suc n) s =
     (case nxt s of (tt, v, s') \<Rightarrow> (tt, v) # (if final_token tt then [] else pull nxt n s'))"

locale token_source =
  fixes nxt :: "'s \<Rightarrow> token_type \<times> string \<times> 's"
    and remaining :: "'s \<Rightarrow> nat"
  assumes progress: "nxt s = (tt, v, s') \<Longrightarrow> \<not> final_token tt \<Longrightarrow> remaining s' < remaining s"
    and never_start: "nxt s = (tt, v, s') \<Longrightarrow> tt \<noteq> TOKEN_TYPE_START"
    and normal_nonempty: "nxt s = (TOKEN_TYPE_NORMAL, v, s') \<Longrightarrow> v \<noteq> []"
begin

lemma pull_stable: "remaining s < n \<Longrightarrow> remaining s < m \<Longrightarrow> pull nxt n s = pull nxt m s"
proof (induction n arbitrary: s m)
  case 0
  then show ?case by simp
next
  case (Suc n)
  obtain k where m: "m = Suc k" using Suc.prems(2) by (cases m) auto
  obtain tt v s' where nxt: "nxt s = (tt, v, s')" by (cases "nxt s") auto
  show ?case
  proof (cases "final_token tt")
    case True
    with nxt m show ?thesis by auto
  next
    case False
    with nxt have "remaining s' < remaining s" by (rule progress)
    with Suc.prems m have "pull nxt n s' = pull nxt k s'" by (intro Suc.IH) auto
    with nxt m show ?thesis by simp
  qed
qed

lemma pull_unfold:
  "pull nxt (Suc (remaining s)) s =
     (case nxt s of (tt, v, s') \<Rightarrow>
        (tt, v) # (if final_token tt then [] else pull nxt (Suc (remaining s')) s'))"
proof -
  obtain tt v s' where nxt: "nxt s = (tt, v, s')" by (cases "nxt s") auto
  have "pull nxt (remaining s) s' = pull nxt (Suc (remaining s')) s'" if "\<not> final_token tt"
    using progress [OF nxt that] by (intro pull_stable) auto
  with nxt show ?thesis by auto
qed

lemma pull_complete:
  assumes "remaining s < n"
  shows "\<exists>ts tt v. pull nxt n s = ts @ [(tt, v)] \<and> final_token tt \<and>
    list_all (\<lambda>(t, w). \<not> final_token t \<and> t \<noteq> TOKEN_TYPE_START \<and> (t = TOKEN_TYPE_NORMAL \<longrightarrow> w \<noteq> [])) ts"
  using assms
proof (induction n arbitrary: s)
  case 0
  then show ?case by simp
next
  case (Suc n)
  obtain tt v s' where nxt: "nxt s = (tt, v, s')" by (cases "nxt s") auto
  show ?case
  proof (cases "final_token tt")
    case True
    with nxt show ?thesis by (intro exI [of _ "[]"]) auto
  next
    case False
    with nxt have "remaining s' < n" using progress Suc.prems by fastforce
    from Suc.IH [OF this] obtain ts tt' v' where "pull nxt n s' = ts @ [(tt', v')]"
      and "final_token tt'" and "list_all (\<lambda>(t, w). \<not> final_token t \<and> t \<noteq> TOKEN_TYPE_START \<and>
        (t = TOKEN_TYPE_NORMAL \<longrightarrow> w \<noteq> [])) ts"
      by blast
    with nxt False never_start [OF nxt] normal_nonempty show ?thesis
      by (intro exI [of _ "(tt, v) # ts"]) auto
  qed
qed

lemma pull_length: "length (pull nxt n s) \<le> Suc (remaining s)"
proof (induction n arbitrary: s)
  case 0
  then show ?case by simp
next
  case (Suc n)
  obtain tt v s' where nxt: "nxt s = (tt, v, s')" by (cases "nxt s") auto
  show ?case
    using nxt Suc.IH [of s'] progress [OF nxt] by auto
qed

end

section \<open>ParseToken as a token source\<close>

definition unread :: "istream option \<Rightarrow> nat" where
  "unread input = (case input of None \<Rightarrow> 0 | Some i \<Rightarrow> length (rest i))"

text \<open>One call of \<open>ParseToken\<close> with a fresh token, as \<open>Parse\<close> makes it.\<close>

definition next_token :: "istream option \<Rightarrow> token_type \<times> string \<times> istream option" where
  "next_token input =
     (case ParseToken input [] of
        Inr (tt, input, token) \<Rightarrow> (tt, token, input)
      | Inl e \<Rightarrow> (TOKEN_TYPE_ERROR, [], input))"

lemma ParseToken_next: "ParseToken input [] = (case next_token input of (tt, v, i) \<Rightarrow> Inr (tt, i, v))"
  using ParseToken_succeeds [of input "[]"] by (auto simp: next_token_def elim!: succeedsE)

lemma next_token_ok:
  assumes "next_token input = (tt, v, input')"
  shows "tt \<noteq> TOKEN_TYPE_START \<and> (tt = TOKEN_TYPE_NORMAL \<longrightarrow> v \<noteq> []) \<and>
    (\<not> final_token tt \<longrightarrow> unread input' < unread input)"
proof -
  have "ParseToken input [] = Inr (tt, input', v)"
    using assms by (simp add: ParseToken_next)
  then show ?thesis
    by (auto simp: ParseToken_def rbind_eq_Inr_iff token_run_ok_def unread_def
        dest!: ParseToken_loop_ok split: option.splits)
qed

interpretation stream_tokens: token_source next_token unread
  by unfold_locales (auto dest: next_token_ok)

lemma ParseToken_progress:
  "ParseToken input [] = Inr (tt, input', token) \<Longrightarrow> \<not> final_token tt \<Longrightarrow>
     unread input' < unread input"
  using next_token_ok [of input tt token input'] by (auto simp: next_token_def)

text \<open>All tokens of an input, the last one being the end of the file or an error.\<close>

definition tokens_of :: "istream option \<Rightarrow> (token_type \<times> string) list" where
  "tokens_of input = pull next_token (Suc (unread input)) input"

lemma tokens_of_unfold:
  "tokens_of input =
     (case next_token input of (tt, v, input') \<Rightarrow>
        (tt, v) # (if final_token tt then [] else tokens_of input'))"
  unfolding tokens_of_def by (rule stream_tokens.pull_unfold)

section \<open>Properties\<close>

text \<open>
  C29: Every call of \<open>ParseToken\<close> returns: no input makes it throw. It never returns the type
  \<open>START\<close>, a normal token is never empty, and unless it reports the end of the file or an error it
  has used up at least one character of the input.
\<close>

theorem ParseToken_returns:
  "\<exists>tt input' v. ParseToken input [] = Inr (tt, input', v) \<and> tt \<noteq> TOKEN_TYPE_START \<and>
     (tt = TOKEN_TYPE_NORMAL \<longrightarrow> v \<noteq> []) \<and> (\<not> final_token tt \<longrightarrow> unread input' < unread input)"
proof -
  obtain tt v input' where "next_token input = (tt, v, input')" by (cases "next_token input") auto
  then show ?thesis using next_token_ok [of input tt v input'] by (auto simp: ParseToken_next)
qed

theorem ParseToken_returns_witness:
  "\<exists>tt input' v. ParseToken (Some (open_text ''a;'')) [] = Inr (tt, input', v) \<and> tt \<noteq> TOKEN_TYPE_START \<and>
     (tt = TOKEN_TYPE_NORMAL \<longrightarrow> v \<noteq> []) \<and>
     (\<not> final_token tt \<longrightarrow> unread input' < unread (Some (open_text ''a;'')))"
  by (rule ParseToken_returns)

text \<open>
  Reading tokens comes to an end on every input: after at most one token per character, and
  one more, the end of the file or an error is reported.
\<close>

lemma tokens_end:
  "(\<exists>ts tt v. tokens_of input = ts @ [(tt, v)] \<and> final_token tt \<and> list_all (\<lambda>(t, w). \<not> final_token t) ts) \<and>
     length (tokens_of input) \<le> Suc (unread input)"
proof -
  obtain ts tt v where "tokens_of input = ts @ [(tt, v)]" "final_token tt"
    and ts: "list_all (\<lambda>(t, w). \<not> final_token t \<and> t \<noteq> TOKEN_TYPE_START \<and> (t = TOKEN_TYPE_NORMAL \<longrightarrow> w \<noteq> [])) ts"
    using stream_tokens.pull_complete [of input "Suc (unread input)"] by (auto simp: tokens_of_def)
  moreover have "list_all (\<lambda>(t, w). \<not> final_token t) ts"
    using ts by (auto simp: list_all_iff)
  moreover have "length (tokens_of input) \<le> Suc (unread input)"
    unfolding tokens_of_def by (rule stream_tokens.pull_length)
  ultimately show ?thesis by blast
qed

end
