(* ===== verification/Config.thy ===== *)
theory Config
  imports Prelude
begin

text \<open>
  The parsed configuration (\<open>include/config.h\<close>, \<open>src/config.cc\<close>): the tree of statements and
  the look-ups \<open>get_str\<close> and \<open>get_num\<close> the server and the handlers read their settings with.
  A null \<open>child_block_\<close> is \<open>None\<close>; dereferencing it is the failure \<open>NullDeref\<close>.
\<close>

section \<open>The configuration tree\<close>

datatype nginx_config = NginxConfig (statements: "nginx_statement list")
and nginx_statement = NginxConfigStatement (tokens: "string list") (child_block: "nginx_config option")

definition default_nums :: "string \<rightharpoonup> int" where
  "default_nums = map_of [(''port'', 80), (''threads'', 4), (''httpsPort'', 443), (''keep-alive'', 0)]"

section \<open>Reading fields\<close>

definition get_str_statement :: "string \<Rightarrow> nginx_statement \<Rightarrow> string option" where
  "get_str_statement field statement =
     (if \<not> (length (tokens statement) > 0 \<and> tokens statement ! 0 = field) then None
      else if length (tokens statement) \<noteq> 2 then None
      else Some (tokens statement ! 1))"

text \<open>The two loops of \<open>get_str\<close>: over the statements, and over those of the server blocks.\<close>

fun get_str_level0 :: "string \<Rightarrow> nginx_statement list \<Rightarrow> string option" where
  "get_str_level0 field [] = None"
| "get_str_level0 field (statement # sts) =
     (case get_str_statement field statement of
        Some v \<Rightarrow> Some v
      | None \<Rightarrow> get_str_level0 field sts)"

fun get_str_server :: "string \<Rightarrow> nginx_statement list \<Rightarrow> string option res" where
  "get_str_server field [] = Inr None"
| "get_str_server field (statement # sts) =
     (let ts = tokens statement in
      if length ts > 0 \<and> ts ! 0 = ''server'' then
        (case child_block statement of
           None \<Rightarrow> Inl NullDeref
         | Some child \<Rightarrow>
             (case get_str_level0 field (statements child) of
                Some v \<Rightarrow> Inr (Some v)
              | None \<Rightarrow> get_str_server field sts))
      else get_str_server field sts)"

definition get_str :: "nginx_config \<Rightarrow> string \<Rightarrow> string res" where
  "get_str config field =
     (case get_str_level0 field (statements config) of
        Some v \<Rightarrow> Inr v
      | None \<Rightarrow>
          rbind (get_str_server field (statements config)) (\<lambda>r.
            case r of Some v \<Rightarrow> Inr v | None \<Rightarrow> Inr []))"

definition get_num :: "nginx_config \<Rightarrow> string \<Rightarrow> int res" where
  "get_num config field =
     rbind (get_str config field) (\<lambda>value.
       case stoi value of
         Stoi n \<Rightarrow> Inr n
       | _ \<Rightarrow> (case default_nums field of Some n \<Rightarrow> Inr n | None \<Rightarrow> Inr 0))"

section \<open>What the look-ups return\<close>

text \<open>
  The reference: the value of the first well-formed statement for the field, the top level
  before the server blocks in the order of the file.
\<close>

definition is_server :: "nginx_statement \<Rightarrow> bool" where
  "is_server st \<longleftrightarrow> (\<exists>ts. tokens st = ''server'' # ts)"

definition server_statements :: "nginx_config \<Rightarrow> nginx_statement list" where
  "server_statements config =
     concat (map (\<lambda>st. case child_block st of Some c \<Rightarrow> statements c | None \<Rightarrow> [])
       (filter is_server (statements config)))"

definition field_value :: "string \<Rightarrow> nginx_statement list \<Rightarrow> string option" where
  "field_value field sts =
     map_option (\<lambda>st. tokens st ! 1)
       (find (\<lambda>st. \<exists>v. tokens st = [field, v]) sts)"

definition server_blocks_present :: "nginx_config \<Rightarrow> bool" where
  "server_blocks_present config \<longleftrightarrow>
     list_all (\<lambda>st. is_server st \<longrightarrow> child_block st \<noteq> None) (statements config)"

lemma get_str_statement_Some_iff:
  "get_str_statement field st = Some v \<longleftrightarrow> tokens st = [field, v]"
  by (cases "tokens st") (auto simp: get_str_statement_def length_Suc_conv)

lemma get_str_statement_None_iff:
  "get_str_statement field st = None \<longleftrightarrow> (\<nexists>v. tokens st = [field, v])"
  using get_str_statement_Some_iff by (metis not_None_eq)

lemma is_server_alt: "is_server st \<longleftrightarrow> length (tokens st) > 0 \<and> tokens st ! 0 = ''server''"
  by (cases "tokens st") (auto simp: is_server_def)

lemma get_str_level0_eq: "get_str_level0 field sts = field_value field sts"
  by (induction sts)
    (auto simp: field_value_def get_str_statement_Some_iff get_str_statement_None_iff
      split: option.splits)

lemma field_value_append:
  "field_value field (xs @ ys) =
     (case field_value field xs of Some v \<Rightarrow> Some v | None \<Rightarrow> field_value field ys)"
  by (induction xs) (auto simp: field_value_def)

lemma get_str_server_eq:
  "list_all (\<lambda>st. is_server st \<longrightarrow> child_block st \<noteq> None) sts \<Longrightarrow>
   get_str_server field sts = Inr (field_value field (server_statements (NginxConfig sts)))"
  by (induction sts)
    (auto simp: server_statements_def is_server_alt get_str_level0_eq field_value_append Let_def
      field_value_def [of _ "[]"] split: option.splits)

lemma get_str_server_Inl:
  "get_str_server field sts = Inl e \<Longrightarrow>
   e = NullDeref \<and> (\<exists>st \<in> set sts. is_server st \<and> child_block st = None)"
  by (induction sts) (auto simp: is_server_alt Let_def split: if_splits option.splits)

lemma get_str_eq:
  assumes "server_blocks_present config"
  shows "get_str config field =
    Inr (case field_value field (statements config @ server_statements config) of
           Some v \<Rightarrow> v | None \<Rightarrow> [])"
  using assms get_str_server_eq [of "statements config" field]
  by (auto simp: get_str_def server_blocks_present_def get_str_level0_eq field_value_append
      split: option.splits)

lemma get_str_Inl:
  "get_str config field = Inl e \<Longrightarrow>
   e = NullDeref \<and> (\<exists>st \<in> set (statements config). is_server st \<and> child_block st = None)"
  by (auto simp: get_str_def rbind_eq_Inl_iff dest!: get_str_server_Inl split: option.splits)

lemma default_nums_range: "default_nums f = Some n \<Longrightarrow> 0 \<le> n \<and> n < 2 ^ 15"
  by (auto simp: default_nums_def split: if_splits)

text \<open>\<open>get_num\<close> once the field's text is known.\<close>

lemma get_num_eq:
  "get_str config field = Inr v \<Longrightarrow> get_num config field =
     Inr (case stoi v of
            Stoi n \<Rightarrow> n
          | _ \<Rightarrow> (case default_nums field of Some n \<Rightarrow> n | None \<Rightarrow> 0))"
  by (auto simp: get_num_def split: stoi_result.splits option.splits)

text \<open>The look-up in the server blocks fails exactly at the first one without a block.\<close>

definition not_in_blocks :: "string \<Rightarrow> nginx_statement list \<Rightarrow> bool" where
  "not_in_blocks field xs \<longleftrightarrow> server_blocks_present (NginxConfig xs) \<and>
     field_value field (server_statements (NginxConfig xs)) = None"

lemma not_in_blocks_simps [simp]:
  "not_in_blocks field []"
  "not_in_blocks field (st # xs) \<longleftrightarrow> not_in_blocks field xs \<and>
     (is_server st \<longrightarrow> (\<exists>c. child_block st = Some c \<and> field_value field (statements c) = None))"
proof -
  show "not_in_blocks field []"
    by (simp add: not_in_blocks_def server_blocks_present_def server_statements_def field_value_def)
  show "not_in_blocks field (st # xs) \<longleftrightarrow> not_in_blocks field xs \<and>
     (is_server st \<longrightarrow> (\<exists>c. child_block st = Some c \<and> field_value field (statements c) = None))"
    by (cases "child_block st")
      (auto simp: not_in_blocks_def server_blocks_present_def server_statements_def field_value_append
        split: option.splits)
qed

lemma ex_split_Cons:
  "(\<exists>xs x ys. a # as = xs @ x # ys \<and> P xs x) \<longleftrightarrow> P [] a \<or> (\<exists>xs x ys. as = xs @ x # ys \<and> P (a # xs) x)"
  by (auto simp: Cons_eq_append_conv)

lemma get_str_server_Cons:
  "get_str_server field (st # sts) =
     (if is_server st then
        (case child_block st of
           None \<Rightarrow> Inl NullDeref
         | Some c \<Rightarrow> (case field_value field (statements c) of
             Some v \<Rightarrow> Inr (Some v) | None \<Rightarrow> get_str_server field sts))
      else get_str_server field sts)"
  by (auto simp: is_server_alt Let_def get_str_level0_eq split: option.split)

lemma get_str_server_Inl_iff:
  "get_str_server field sts = Inl e \<longleftrightarrow> e = NullDeref \<and>
     (\<exists>xs st ys. sts = xs @ st # ys \<and> is_server st \<and> child_block st = None \<and> not_in_blocks field xs)"
proof (induction sts)
  case Nil
  then show ?case by simp
next
  case (Cons s sts)
  show ?case
    unfolding ex_split_Cons get_str_server_Cons
    by (cases "is_server s"; cases "child_block s"; cases "field_value field (statements (the (child_block s)))")
      (auto simp: Cons.IH)
qed

section \<open>Properties\<close>

text \<open>
  C31: In a configuration whose \<open>server\<close> statements all have a block, \<open>get_str\<close> returns the second
  word of the first two-word statement for the field, those of the top level before those of the
  server blocks in their order, and the empty string where there is none.
\<close>

theorem get_str_finds:
  assumes "server_blocks_present config"
  shows "get_str config field =
    Inr (case field_value field (statements config @ server_statements config) of
           Some v \<Rightarrow> v | None \<Rightarrow> [])"
  using assms by (rule get_str_eq)

theorem get_str_finds_witness:
  "get_str (NginxConfig [NginxConfigStatement [''server'']
       (Some (NginxConfig [NginxConfigStatement [''port'', ''81''] None]))]) ''port'' = Inr ''81''"
  using get_str_finds [of "NginxConfig [NginxConfigStatement [''server'']
       (Some (NginxConfig [NginxConfigStatement [''port'', ''81''] None]))]" "''port''"]
  by (simp add: server_blocks_present_def is_server_def field_value_def server_statements_def)

text \<open>
  C32: \<open>get_str\<close> dereferences a null pointer exactly when the field is not set at the top level and
  a \<open>server\<close> statement without a block comes before every server block that sets it; it fails in
  no other way.
\<close>

theorem get_str_null:
  "get_str config field = Inl e \<longleftrightarrow> e = NullDeref \<and> field_value field (statements config) = None \<and>
     (\<exists>xs st ys. statements config = xs @ st # ys \<and> is_server st \<and> child_block st = None \<and>
       server_blocks_present (NginxConfig xs) \<and>
       field_value field (server_statements (NginxConfig xs)) = None)"
  unfolding not_in_blocks_def [symmetric]
  by (auto simp: get_str_def rbind_eq_Inl_iff get_str_level0_eq get_str_server_Inl_iff split: option.splits)

text \<open>
  Whatever the configuration holds, a number \<open>get_num\<close> returns is a 32-bit \<open>int\<close>.
\<close>

lemma get_num_range:
  assumes "get_num config field = Inr n"
  shows "- (2 ^ 31) \<le> n \<and> n < 2 ^ 31"
proof -
  obtain v where v: "get_str config field = Inr v"
    using assms by (auto simp: get_num_def rbind_eq_Inr_iff)
  show ?thesis
    using assms get_num_eq [OF v] stoi_range [of v] default_nums_range [of field]
    by (fastforce split: stoi_result.splits option.splits)
qed

lemma get_num_range_witness:
  "get_num (NginxConfig []) ''httpsPort'' = Inr 443 \<and> - (2 ^ 31) \<le> (443 :: int) \<and> (443 :: int) < 2 ^ 31"
proof -
  have "get_num (NginxConfig []) ''httpsPort'' = Inr 443"
    by (simp add: get_num_def get_str_def stoi_def default_nums_def)
  with get_num_range [OF this] show ?thesis by blast
qed

text \<open>
  A number below \<open>2 ^ 31\<close> written in decimal as a field of the top level is the number
  \<open>get_num\<close> returns for that field.
\<close>

lemma get_num_roundtrip:
  assumes "n < 2 ^ 31"
  shows "get_num (NginxConfig (NginxConfigStatement [field, to_string n] c # sts)) field = Inr (int n)"
  using stoi_to_string [OF assms] by (simp add: get_num_def get_str_def get_str_statement_def)

lemma get_num_roundtrip_witness:
  "get_num (NginxConfig [NginxConfigStatement [''port'', to_string 8080] None]) ''port'' = Inr 8080"
  using get_num_roundtrip [of 8080 "''port''" None "[]"] by simp

end
