(* ===== verification/Parser.thy ===== *)
theory Parser
  imports Token_Source Config
begin

text \<open>
  \<open>NginxConfigParser::Parse\<close> and \<open>parse_args\<close> (\<open>src/parser.cc\<close>). The code builds the tree of
  statements in place, through a stack of raw pointers to the blocks that are still open, so
  the model has an explicit store: the block at address \<open>a\<close> is the list of statements
  \<open>store ! a\<close>, \<open>new NginxConfig\<close> takes the next address, and a statement's \<open>child_block_\<close> is an
  address. \<open>Parser_Refinement\<close> and \<open>Grammar\<close>
  relate it to a parser without pointers and to the grammar of configuration files.
\<close>

section \<open>The store of blocks\<close>

text \<open>
  \<open>Null\<close> is the null \<open>unique_ptr\<close>; \<open>Addr\<close> a block this run of the parser allocated; \<open>Owned\<close> a
  block that was in the caller's configuration before.
\<close>

datatype child_ptr = Null | Addr nat | Owned nginx_config

record cstatement =
  c_tokens :: "string list"
  c_child :: child_ptr

type_synonym store = "cstatement list list"

definition emplace_statement :: "nat \<Rightarrow> store \<Rightarrow> store" where
  "emplace_statement a h = h[a := h ! a @ [\<lparr>c_tokens = [], c_child = Null\<rparr>]]"

text \<open>An update of \<open>statements_.back()\<close>, undefined on a block without statements.\<close>

definition update_back :: "(cstatement \<Rightarrow> cstatement) \<Rightarrow> nat \<Rightarrow> store \<Rightarrow> store res" where
  "update_back f a h =
     (if h ! a = [] then Inl EmptyContainer
      else Inr (h[a := butlast (h ! a) @ [f (last (h ! a))]]))"

text \<open>The tree rooted at an address. Blocks are allocated after the block that owns them.\<close>

function config_of :: "store \<Rightarrow> nat \<Rightarrow> nginx_config" where
  "config_of h a =
     NginxConfig (map (\<lambda>st. NginxConfigStatement (c_tokens st)
       (case c_child st of
          Null \<Rightarrow> None
        | Addr b \<Rightarrow> if a < b \<and> b < length h then Some (config_of h b) else None
        | Owned c \<Rightarrow> Some c)) (h ! a))"
  by pat_completeness auto
termination
  by (relation "measure (\<lambda>(h, a). length h - a)") auto

declare config_of.simps [simp del]

text \<open>The caller's block as the store sees it.\<close>

definition load_statement :: "nginx_statement \<Rightarrow> cstatement" where
  "load_statement st = \<lparr>c_tokens = tokens st,
     c_child = (case child_block st of None \<Rightarrow> Null | Some c \<Rightarrow> Owned c)\<rparr>"

section \<open>Parse\<close>

record parser_state =
  store :: store
  config_stack :: "nat list"
  last_token_type :: token_type
  braces_depth :: int

text \<open>Leaving the loop with an error, leaving it with \<open>return true\<close>, or the next pass.\<close>

datatype parse_step = Break | Accept | Next parser_state

definition Parse_normal :: "string \<Rightarrow> parser_state \<Rightarrow> parse_step res" where
  "Parse_normal token s =
     (if last_token_type s \<in> {TOKEN_TYPE_START, TOKEN_TYPE_STATEMENT_END, TOKEN_TYPE_START_BLOCK,
           TOKEN_TYPE_END_BLOCK, TOKEN_TYPE_NORMAL} then
        (case config_stack s of
           [] \<Rightarrow> Inl EmptyContainer
         | a # _ \<Rightarrow>
             (let h = (if last_token_type s \<noteq> TOKEN_TYPE_NORMAL
                       then emplace_statement a (store s) else store s)
              in rbind (update_back (\<lambda>st. st\<lparr>c_tokens := c_tokens st @ [token]\<rparr>) a h) (\<lambda>h.
                   Inr (Next (s\<lparr>store := h, last_token_type := TOKEN_TYPE_NORMAL\<rparr>)))))
      else Inr Break)"

definition Parse_start_block :: "parser_state \<Rightarrow> parse_step res" where
  "Parse_start_block s =
     (if last_token_type s \<noteq> TOKEN_TYPE_NORMAL then Inr Break
      else
        (case config_stack s of
           [] \<Rightarrow> Inl EmptyContainer
         | a # _ \<Rightarrow>
             (let new_config = length (store s) in
              rbind (update_back (\<lambda>st. st\<lparr>c_child := Addr new_config\<rparr>) a (store s)) (\<lambda>h.
                Inr (Next (s\<lparr>store := h @ [[]], config_stack := new_config # config_stack s,
                             braces_depth := braces_depth s + 1,
                             last_token_type := TOKEN_TYPE_START_BLOCK\<rparr>))))))"

definition Parse_end_block :: "parser_state \<Rightarrow> parse_step res" where
  "Parse_end_block s =
     (if last_token_type s \<noteq> TOKEN_TYPE_STATEMENT_END \<and>
         last_token_type s \<noteq> TOKEN_TYPE_END_BLOCK \<and>
         last_token_type s \<noteq> TOKEN_TYPE_START_BLOCK then Inr Break
      else
        (let depth = braces_depth s - 1 in
         if depth < 0 then Inr Break
         else
           (case config_stack s of
              [] \<Rightarrow> Inl EmptyContainer
            | _ # below \<Rightarrow> Inr (Next (s\<lparr>config_stack := below, braces_depth := depth,
                                        last_token_type := TOKEN_TYPE_END_BLOCK\<rparr>)))))"

fun Parse_step :: "token_type \<Rightarrow> string \<Rightarrow> parser_state \<Rightarrow> parse_step res" where
  "Parse_step TOKEN_TYPE_ERROR token s = Inr Break"
| "Parse_step TOKEN_TYPE_COMMENT token s = Inr (Next s)"
| "Parse_step TOKEN_TYPE_START token s = Inr Break"
| "Parse_step TOKEN_TYPE_NORMAL token s = Parse_normal token s"
| "Parse_step TOKEN_TYPE_STATEMENT_END token s =
     Inr (if last_token_type s \<noteq> TOKEN_TYPE_NORMAL then Break
          else Next (s\<lparr>last_token_type := TOKEN_TYPE_STATEMENT_END\<rparr>))"
| "Parse_step TOKEN_TYPE_START_BLOCK token s = Parse_start_block s"
| "Parse_step TOKEN_TYPE_END_BLOCK token s = Parse_end_block s"
| "Parse_step TOKEN_TYPE_EOF token s =
     Inr (if (last_token_type s \<noteq> TOKEN_TYPE_STATEMENT_END \<and>
              last_token_type s \<noteq> TOKEN_TYPE_END_BLOCK) \<or> braces_depth s \<noteq> 0
          then Break else Accept)"

text \<open>No pass goes on after the end of the file or an error, so every further pass has read
  characters: the tokenizer's progress makes the loop end.\<close>

lemma Parse_step_Next: "Parse_step tt token s = Inr (Next s') \<Longrightarrow> \<not> final_token tt"
  by (cases tt) (auto split: if_splits)

function Parse_loop :: "istream option \<Rightarrow> parser_state \<Rightarrow> (bool \<times> token_type \<times> parser_state) res" where
  "Parse_loop input s =
     (case ParseToken input [] of
        Inl e \<Rightarrow> Inl e
      | Inr (token_type, input, token) \<Rightarrow>
          (case Parse_step token_type token s of
             Inl e \<Rightarrow> Inl e
           | Inr Break \<Rightarrow> Inr (False, token_type, s)
           | Inr Accept \<Rightarrow> Inr (True, token_type, s)
           | Inr (Next s) \<Rightarrow> Parse_loop input s))"
  by pat_completeness auto
termination
  by (relation "measure (\<lambda>(i, s). unread i)")
    (auto dest: Parse_step_Next ParseToken_progress)

declare Parse_loop.simps [simp del]

text \<open>
  \<open>Parse(std::istream*, NginxConfig*)\<close>: the result, what \<open>printf\<close> writes, and the caller's
  configuration afterwards. Either pointer may be null.
\<close>

definition bad_transition :: "token_type \<Rightarrow> token_type \<Rightarrow> string" where
  "bad_transition last_tt tt =
     ''Bad transition from '' @ TokenTypeAsString last_tt @ '' to '' @ TokenTypeAsString tt @ [ch_lf]"

definition Parse ::
  "istream option \<Rightarrow> nginx_config option \<Rightarrow> (bool \<times> string \<times> nginx_config option) res" where
  "Parse config_file config =
     (case config of
        None \<Rightarrow> Inr (False, [], None)
      | Some (NginxConfig sts) \<Rightarrow>
          rbind (Parse_loop config_file
              \<lparr>store = [map load_statement sts], config_stack = [0],
               last_token_type = TOKEN_TYPE_START, braces_depth = 0\<rparr>)
            (\<lambda>(ok, token_type, s).
              Inr (ok, if ok then [] else bad_transition (last_token_type s) token_type,
                   Some (config_of (store s) 0))))"

section \<open>The configuration file and the program's arguments\<close>

text \<open>
  \<open>Parse(const char*, NginxConfig*)\<close>: \<open>open_file\<close> is the text an \<open>ifstream\<close> on that name reads,
  \<open>None\<close> where it does not open. The second component is what is printed, here to the error
  output.
\<close>

definition Parse_file ::
  "(string \<Rightarrow> string option) \<Rightarrow> string \<Rightarrow> nginx_config option \<Rightarrow>
     (bool \<times> string \<times> nginx_config option) res" where
  "Parse_file open_file file_name config =
     (case open_file file_name of
        None \<Rightarrow> Inr (False, ''Failed to open config file: '' @ file_name @ [ch_lf], config)
      | Some text \<Rightarrow> Parse (Some (open_text text)) config)"

text \<open>\<open>exit(n)\<close> or a return. \<open>argv[1]\<close> of a shorter array is no string.\<close>

datatype 'a outcome = Exited int | Returned 'a

definition parse_args ::
  "(string \<Rightarrow> string option) \<Rightarrow> int \<Rightarrow> string list \<Rightarrow> nginx_config option \<Rightarrow>
     (int \<times> string \<times> nginx_config option) outcome res" where
  "parse_args open_file argc argv config =
     (if argc \<noteq> 2 then Inr (Exited 1)
      else if config = None then Inr (Exited 2)
      else if length argv < 2 then Inl NullDeref
      else
        rbind (Parse_file open_file (argv ! 1) config) (\<lambda>(ok, printed, config).
          Inr (Returned (0, printed, config))))"

end
