(* ===== verification/Parser_Refinement.thy ===== *)
theory Parser_Refinement
  imports Parser
begin

text \<open>
  The parser's store implements a stack of open blocks. The abstract parser keeps, innermost
  first, the statements of every block that is still open; no pointers, no addresses, no
  brace counter. The refinement lemma says that \<open>Parse\<close> computes exactly what the abstract
  parser does, on every input, accepted or not, and that it never reads a null pointer or the
  back of an empty container on the way.
\<close>

section \<open>The abstract parser\<close>

type_synonym open_blocks = "nginx_statement list list"

fun new_statement :: "open_blocks \<Rightarrow> open_blocks" where
  "new_statement (b # bs) = (b @ [NginxConfigStatement [] None]) # bs"
| "new_statement [] = []"

fun add_token :: "string \<Rightarrow> open_blocks \<Rightarrow> open_blocks" where
  "add_token token (b # bs) =
     (butlast b @ [NginxConfigStatement (tokens (last b) @ [token]) (child_block (last b))]) # bs"
| "add_token token [] = []"

fun close_block :: "open_blocks \<Rightarrow> open_blocks" where
  "close_block (c # p # bs) =
     (butlast p @ [NginxConfigStatement (tokens (last p)) (Some (NginxConfig c))]) # bs"
| "close_block bs = bs"

text \<open>The configuration with every open block attached to its owner.\<close>

fun built :: "open_blocks \<Rightarrow> nginx_config" where
  "built [] = NginxConfig []"
| "built [b] = NginxConfig b"
| "built (c # p # bs) = built (close_block (c # p # bs))"

datatype spec_outcome = SBreak | SAccept | SNext open_blocks token_type

fun spec_step :: "token_type \<Rightarrow> string \<Rightarrow> open_blocks \<Rightarrow> token_type \<Rightarrow> spec_outcome" where
  "spec_step TOKEN_TYPE_COMMENT token bs lt = SNext bs lt"
| "spec_step TOKEN_TYPE_NORMAL token bs lt =
     SNext (add_token token (if lt = TOKEN_TYPE_NORMAL then bs else new_statement bs))
       TOKEN_TYPE_NORMAL"
| "spec_step TOKEN_TYPE_STATEMENT_END token bs lt =
     (if lt = TOKEN_TYPE_NORMAL then SNext bs TOKEN_TYPE_STATEMENT_END else SBreak)"
| "spec_step TOKEN_TYPE_START_BLOCK token bs lt =
     (if lt = TOKEN_TYPE_NORMAL then SNext ([] # bs) TOKEN_TYPE_START_BLOCK else SBreak)"
| "spec_step TOKEN_TYPE_END_BLOCK token bs lt =
     (if lt \<in> {TOKEN_TYPE_STATEMENT_END, TOKEN_TYPE_END_BLOCK, TOKEN_TYPE_START_BLOCK} \<and> length bs > 1
      then SNext (close_block bs) TOKEN_TYPE_END_BLOCK else SBreak)"
| "spec_step TOKEN_TYPE_EOF token bs lt =
     (if lt \<in> {TOKEN_TYPE_STATEMENT_END, TOKEN_TYPE_END_BLOCK} \<and> length bs = 1
      then SAccept else SBreak)"
| "spec_step tt token bs lt = SBreak"

fun spec_run ::
  "(token_type \<times> string) list \<Rightarrow> open_blocks \<Rightarrow> token_type \<Rightarrow> bool \<times> token_type \<times> open_blocks \<times> token_type" where
  "spec_run [] bs lt = (False, TOKEN_TYPE_ERROR, bs, lt)"
| "spec_run ((tt, token) # ts) bs lt =
     (case spec_step tt token bs lt of
        SBreak \<Rightarrow> (False, tt, bs, lt)
      | SAccept \<Rightarrow> (True, tt, bs, lt)
      | SNext bs lt \<Rightarrow> spec_run ts bs lt)"

section \<open>Address ranges of the store\<close>

text \<open>
  A block owns the addresses above its own up to the next open block, or up to the end of the
  store for the innermost one: its closed children and all their descendants are in there.
\<close>

definition child_in :: "cstatement \<Rightarrow> nat \<Rightarrow> nat \<Rightarrow> bool" where
  "child_in st lo hi \<longleftrightarrow> (case c_child st of Addr b \<Rightarrow> lo < b \<and> b < hi | _ \<Rightarrow> True)"

definition region :: "store \<Rightarrow> nat \<Rightarrow> nat \<Rightarrow> bool" where
  "region h lo hi \<longleftrightarrow> (\<forall>x. lo < x \<and> x < hi \<longrightarrow> (\<forall>st \<in> set (h ! x). child_in st x hi))"

fun lower_ok :: "store \<Rightarrow> nat \<Rightarrow> nat list \<Rightarrow> bool" where
  "lower_ok h hi [] \<longleftrightarrow> hi = 0"
| "lower_ok h hi (a # as) \<longleftrightarrow> a < hi \<and> h ! a \<noteq> [] \<and> c_child (last (h ! a)) = Addr hi \<and>
     (\<forall>st \<in> set (butlast (h ! a)). child_in st a hi) \<and> region h a hi \<and> lower_ok h a as"

fun store_ok :: "store \<Rightarrow> nat list \<Rightarrow> bool" where
  "store_ok h [] \<longleftrightarrow> False"
| "store_ok h (a # as) \<longleftrightarrow> a < length h \<and> (\<forall>st \<in> set (h ! a). child_in st a (length h)) \<and>
     region h a (length h) \<and> lower_ok h a as"

definition stmt_of :: "store \<Rightarrow> cstatement \<Rightarrow> nginx_statement" where
  "stmt_of h st = NginxConfigStatement (c_tokens st)
     (case c_child st of Null \<Rightarrow> None | Addr b \<Rightarrow> Some (config_of h b) | Owned c \<Rightarrow> Some c)"

text \<open>An open block below the innermost: the child of its last statement is still open.\<close>

definition open_frame :: "store \<Rightarrow> nat \<Rightarrow> nginx_statement list" where
  "open_frame h a =
     map (stmt_of h) (butlast (h ! a)) @ [NginxConfigStatement (c_tokens (last (h ! a))) None]"

fun frames_of :: "store \<Rightarrow> nat list \<Rightarrow> open_blocks" where
  "frames_of h [] = []"
| "frames_of h (a # as) = map (stmt_of h) (h ! a) # map (open_frame h) as"

lemma length_frames_of [simp]: "length (frames_of h as) = length as"
  by (cases as) auto

lemma child_in_mono: "child_in st lo hi \<Longrightarrow> hi \<le> hi' \<Longrightarrow> child_in st lo hi'"
  by (auto simp: child_in_def split: child_ptr.splits)

lemma regionD: "region h lo hi \<Longrightarrow> lo < x \<Longrightarrow> x < hi \<Longrightarrow> st \<in> set (h ! x) \<Longrightarrow> child_in st x hi"
  by (auto simp: region_def)

lemma region_empty [simp]: "region h a (Suc a)"
  by (auto simp: region_def)

lemma config_of_stmts:
  assumes "\<forall>st \<in> set (h ! a). child_in st a (length h)"
  shows "config_of h a = NginxConfig (map (stmt_of h) (h ! a))"
  using assms
  by (subst config_of.simps) (auto simp: stmt_of_def child_in_def split: child_ptr.splits)

text \<open>Trees below an address depend on their own address range only.\<close>

lemma config_of_cong:
  assumes "region h lo hi" and "\<And>x. lo < x \<Longrightarrow> x < hi \<Longrightarrow> h' ! x = h ! x"
    and "hi \<le> length h" and "hi \<le> length h'" and "lo < b" and "b < hi"
  shows "config_of h' b = config_of h b"
  using assms(5,6)
proof (induction "hi - b" arbitrary: b rule: less_induct)
  case less
  have children: "\<forall>st \<in> set (h ! b). child_in st b hi"
    using assms(1) less.prems by (auto intro: regionD)
  have "config_of h' x = config_of h x" if "b < x" "x < hi" for x
    using that less.prems by (intro less.hyps) auto
  then have "stmt_of h' st = stmt_of h st" if "st \<in> set (h ! b)" for st
    using children that by (auto simp: stmt_of_def child_in_def split: child_ptr.splits)
  moreover have "h' ! b = h ! b"
    using assms(2) less.prems by simp
  moreover have "\<forall>st \<in> set (h ! b). child_in st b (length h)" "\<forall>st \<in> set (h' ! b). child_in st b (length h')"
    using children assms(3,4) calculation(2) by (auto intro: child_in_mono)
  ultimately show ?case
    by (simp add: config_of_stmts)
qed

lemma stmt_of_cong:
  assumes "region h lo hi" and "\<And>x. lo < x \<Longrightarrow> x < hi \<Longrightarrow> h' ! x = h ! x"
    and "hi \<le> length h" and "hi \<le> length h'" and "child_in st lo hi"
  shows "stmt_of h' st = stmt_of h st"
  using assms config_of_cong [OF assms(1-4)]
  by (auto simp: stmt_of_def child_in_def split: child_ptr.splits)

text \<open>The blocks below an address are not touched by a change at or above it.\<close>

lemma lower_ok_cong:
  assumes "lower_ok h hi as" and "\<And>x. x < hi \<Longrightarrow> h' ! x = h ! x"
  shows "lower_ok h' hi as"
  using assms
proof (induction as arbitrary: hi)
  case Nil
  then show ?case by simp
next
  case (Cons a as)
  then have "lower_ok h' a as" by auto
  with Cons.prems show ?case by (auto simp: region_def)
qed

lemma lower_frames_cong:
  assumes "lower_ok h hi as" and "\<And>x. x < hi \<Longrightarrow> h' ! x = h ! x"
    and "hi \<le> length h" and "hi \<le> length h'"
  shows "map (open_frame h') as = map (open_frame h) as"
  using assms
proof (induction as arbitrary: hi)
  case Nil
  then show ?case by simp
next
  case (Cons a as)
  have "stmt_of h' st = stmt_of h st" if "st \<in> set (butlast (h ! a))" for st
    using Cons.prems that by (intro stmt_of_cong [of h a hi]) auto
  then have "open_frame h' a = open_frame h a"
    using Cons.prems by (simp add: open_frame_def)
  moreover have "map (open_frame h') as = map (open_frame h) as"
    using Cons.prems by (intro Cons.IH [of a]) auto
  ultimately show ?case by simp
qed

section \<open>The store operations on the open blocks\<close>

lemma store_update:
  assumes ok: "store_ok h (a # as)" and ss: "\<forall>st \<in> set ss. child_in st a (length h)"
  shows "store_ok (h[a := ss]) (a # as)"
    and "frames_of (h[a := ss]) (a # as) = map (stmt_of h) ss # map (open_frame h) as"
proof -
  have low: "lower_ok h a as" and a: "a < length h" and reg: "region h a (length h)"
    using ok by auto
  have "lower_ok (h[a := ss]) a as"
    using low by (rule lower_ok_cong) simp
  moreover have "region (h[a := ss]) a (length h)"
    using reg by (auto simp: region_def)
  ultimately show "store_ok (h[a := ss]) (a # as)"
    using a ss by simp
  have "map (open_frame (h[a := ss])) as = map (open_frame h) as"
    using low a by (intro lower_frames_cong [of h a as]) auto
  moreover have "stmt_of (h[a := ss]) st = stmt_of h st" if "st \<in> set ss" for st
    using reg ss that by (intro stmt_of_cong [of h a "length h"]) auto
  ultimately show "frames_of (h[a := ss]) (a # as) = map (stmt_of h) ss # map (open_frame h) as"
    using a by simp
qed

lemma store_open:
  assumes ok: "store_ok h (a # as)" and ne: "h ! a \<noteq> []"
  defines "h' \<equiv> h[a := butlast (h ! a) @ [(last (h ! a))\<lparr>c_child := Addr (length h)\<rparr>]] @ [[]]"
  shows "store_ok h' (length h # a # as)"
    and "frames_of h' (length h # a # as) =
      [] # (map (stmt_of h) (butlast (h ! a)) @ [NginxConfigStatement (c_tokens (last (h ! a))) None])
         # map (open_frame h) as"
proof -
  have low: "lower_ok h a as" and a: "a < length h" and reg: "region h a (length h)"
    and ch: "\<forall>st \<in> set (butlast (h ! a)). child_in st a (length h)"
    using ok by (auto dest: in_set_butlastD)
  have same: "h' ! x = h ! x" if "x \<noteq> a" "x < length h" for x
    using that by (simp add: h'_def nth_append)
  have at_a: "h' ! a = butlast (h ! a) @ [(last (h ! a))\<lparr>c_child := Addr (length h)\<rparr>]"
    using a by (simp add: h'_def nth_append)
  have new: "h' ! length h = []" and len: "length h' = Suc (length h)"
    by (simp_all add: h'_def nth_append)
  have "lower_ok h' a as"
    using low a by (rule_tac lower_ok_cong) (auto simp: same)
  moreover have "region h' a (length h)"
    using reg by (auto simp: region_def same)
  ultimately show "store_ok h' (length h # a # as)"
    using a ch at_a new len by simp
  have "map (open_frame h') as = map (open_frame h) as"
    using low a len by (intro lower_frames_cong [of h a as]) (auto simp: same)
  moreover have "stmt_of h' st = stmt_of h st" if "st \<in> set (butlast (h ! a))" for st
    using reg ch len that by (intro stmt_of_cong [of h a "length h"]) (auto simp: same)
  ultimately show "frames_of h' (length h # a # as) =
      [] # (map (stmt_of h) (butlast (h ! a)) @ [NginxConfigStatement (c_tokens (last (h ! a))) None])
         # map (open_frame h) as"
    using at_a new by (simp add: open_frame_def)
qed

lemma store_close:
  assumes ok: "store_ok h (a # p # as)"
  shows "store_ok h (p # as)"
    and "frames_of h (p # as) = close_block (frames_of h (a # p # as))"
proof -
  have a: "a < length h" and pa: "p < a" and ne: "h ! p \<noteq> []"
    and last: "c_child (last (h ! p)) = Addr a"
    and butlast: "\<forall>st \<in> set (butlast (h ! p)). child_in st p a"
    and regs: "region h p a" "region h a (length h)"
    and ch: "\<forall>st \<in> set (h ! a). child_in st a (length h)"
    and low: "lower_ok h p as"
    using ok by auto
  have split: "h ! p = butlast (h ! p) @ [last (h ! p)]"
    using ne by simp
  have "\<forall>st \<in> set (h ! p). child_in st p (length h)"
    using butlast last a pa
    by (subst split) (auto simp: child_in_def split: child_ptr.splits)
  moreover have "region h p (length h)"
    unfolding region_def
  proof (intro allI impI ballI)
    fix x st assume x: "p < x \<and> x < length h" and st: "st \<in> set (h ! x)"
    consider "x < a" | "x = a" | "a < x" by linarith
    then show "child_in st x (length h)"
      using x st regs ch a
      by cases (auto dest!: regionD intro: child_in_mono)
  qed
  ultimately show "store_ok h (p # as)"
    using a pa low by simp
  have "map (stmt_of h) (h ! p) =
      map (stmt_of h) (butlast (h ! p)) @ [NginxConfigStatement (c_tokens (last (h ! p))) (Some (config_of h a))]"
    by (subst split, subst map_append) (simp add: stmt_of_def last)
  then show "frames_of h (p # as) = close_block (frames_of h (a # p # as))"
    using config_of_stmts [OF ch] by (simp add: open_frame_def)
qed

lemma built_close: "length bs > 1 \<Longrightarrow> built bs = built (close_block bs)"
  by (cases bs rule: built.cases) auto

lemma store_built: "store_ok h (a # as) \<Longrightarrow> config_of h 0 = built (frames_of h (a # as))"
proof (induction as arbitrary: a)
  case Nil
  then show ?case by (auto simp: config_of_stmts)
next
  case (Cons p as)
  have "config_of h 0 = built (frames_of h (p # as))"
    using store_close(1) [OF Cons.prems] by (rule Cons.IH)
  also have "\<dots> = built (frames_of h (a # p # as))"
    using store_close(2) [OF Cons.prems] built_close [of "frames_of h (a # p # as)"] by simp
  finally show ?case .
qed

section \<open>Simulation\<close>

definition live_type :: "token_type \<Rightarrow> bool" where
  "live_type lt \<longleftrightarrow> lt \<in> {TOKEN_TYPE_START, TOKEN_TYPE_STATEMENT_END, TOKEN_TYPE_START_BLOCK,
     TOKEN_TYPE_END_BLOCK, TOKEN_TYPE_NORMAL}"

definition parser_rel :: "parser_state \<Rightarrow> open_blocks \<Rightarrow> token_type \<Rightarrow> bool" where
  "parser_rel s bs lt \<longleftrightarrow>
     store_ok (store s) (config_stack s) \<and> frames_of (store s) (config_stack s) = bs \<and>
     last_token_type s = lt \<and> braces_depth s = int (length (config_stack s)) - 1 \<and>
     live_type lt \<and>
     (lt = TOKEN_TYPE_NORMAL \<longrightarrow> hd bs \<noteq> [] \<and> child_block (last (hd bs)) = None)"

text \<open>Related outcomes of one pass.\<close>

fun outcome_rel :: "parser_state \<Rightarrow> parse_step \<Rightarrow> spec_outcome \<Rightarrow> bool" where
  "outcome_rel s Break SBreak = True"
| "outcome_rel s Accept SAccept = True"
| "outcome_rel s (Next s') (SNext bs lt) = parser_rel s' bs lt"
| "outcome_rel s _ _ = False"

lemma parser_relE:
  assumes "parser_rel s bs lt"
  obtains a as where "config_stack s = a # as" and "store_ok (store s) (a # as)"
    and "bs = map (stmt_of (store s)) (store s ! a) # map (open_frame (store s)) as"
    and "braces_depth s = int (length as)" and "last_token_type s = lt" and "live_type lt"
    and "lt = TOKEN_TYPE_NORMAL \<Longrightarrow> store s ! a \<noteq> [] \<and> c_child (last (store s ! a)) = Null"
proof -
  obtain a as where stack: "config_stack s = a # as"
    using assms by (cases "config_stack s") (auto simp: parser_rel_def)
  moreover have "store s ! a \<noteq> [] \<and> c_child (last (store s ! a)) = Null"
    if "lt = TOKEN_TYPE_NORMAL"
    using assms that stack
    by (auto simp: parser_rel_def last_map stmt_of_def split: child_ptr.splits)
  ultimately show ?thesis
    using assms by (intro that [of a as]) (auto simp: parser_rel_def)
qed

lemma normal_simulates:
  assumes "parser_rel s bs lt"
  shows "\<exists>o1. Parse_normal token s = Inr o1 \<and> outcome_rel s o1 (spec_step TOKEN_TYPE_NORMAL token bs lt)"
  using assms
proof (rule parser_relE)
  fix a as
  assume st: "config_stack s = a # as" "last_token_type s = lt" "live_type lt"
    "braces_depth s = int (length as)"
    and ok: "store_ok (store s) (a # as)"
    and bs: "bs = map (stmt_of (store s)) (store s ! a) # map (open_frame (store s)) as"
    and norm: "lt = TOKEN_TYPE_NORMAL \<Longrightarrow> store s ! a \<noteq> [] \<and> c_child (last (store s ! a)) = Null"
  let ?h = "store s"
  let ?new = "\<lparr>c_tokens = [token], c_child = Null\<rparr>"
  let ?upd = "(last (?h ! a))\<lparr>c_tokens := c_tokens (last (?h ! a)) @ [token]\<rparr>"
  define ss where "ss = (if lt = TOKEN_TYPE_NORMAL then butlast (?h ! a) @ [?upd] else ?h ! a @ [?new])"
  have a: "a < length ?h" using ok by simp
  have child: "\<forall>st \<in> set ss. child_in st a (length ?h)"
    using ok norm by (auto simp: ss_def child_in_def dest: in_set_butlastD split: child_ptr.splits)
  have run: "Parse_normal token s =
      Inr (Next (s\<lparr>store := ?h[a := ss], last_token_type := TOKEN_TYPE_NORMAL\<rparr>))"
    using st norm a
    by (auto simp: Parse_normal_def live_type_def update_back_def emplace_statement_def ss_def Let_def)
  have frames: "map (stmt_of ?h) ss # map (open_frame ?h) as =
      add_token token (if lt = TOKEN_TYPE_NORMAL then bs else new_statement bs)"
    using bs norm
    by (auto simp: ss_def stmt_of_def last_map map_butlast split: child_ptr.splits)
  have last: "ss \<noteq> [] \<and> c_child (last ss) = Null"
    using norm by (auto simp: ss_def)
  have "parser_rel (s\<lparr>store := ?h[a := ss], last_token_type := TOKEN_TYPE_NORMAL\<rparr>)
      (map (stmt_of ?h) ss # map (open_frame ?h) as) TOKEN_TYPE_NORMAL"
    using store_update [OF ok child] st last
    by (auto simp: parser_rel_def live_type_def last_map stmt_of_def)
  with run frames show ?thesis by (auto)
qed

lemma start_block_simulates:
  assumes "parser_rel s bs lt"
  shows "\<exists>o1. Parse_start_block s = Inr o1 \<and>
    outcome_rel s o1 (spec_step TOKEN_TYPE_START_BLOCK token bs lt)"
  using assms
proof (rule parser_relE)
  fix a as
  assume st: "config_stack s = a # as" "last_token_type s = lt" "braces_depth s = int (length as)"
    and ok: "store_ok (store s) (a # as)"
    and bs: "bs = map (stmt_of (store s)) (store s ! a) # map (open_frame (store s)) as"
    and norm: "lt = TOKEN_TYPE_NORMAL \<Longrightarrow> store s ! a \<noteq> [] \<and> c_child (last (store s ! a)) = Null"
  show ?thesis
  proof (cases "lt = TOKEN_TYPE_NORMAL")
    case False
    with st show ?thesis by (simp add: Parse_start_block_def)
  next
    case True
    let ?h = "store s"
    have ne: "?h ! a \<noteq> []" and null: "c_child (last (?h ! a)) = Null"
      using norm [OF True] by auto
    have "map (stmt_of ?h) (?h ! a) = map (stmt_of ?h) (butlast (?h ! a) @ [last (?h ! a)])"
      using ne by simp
    also have "\<dots> = map (stmt_of ?h) (butlast (?h ! a)) @
        [NginxConfigStatement (c_tokens (last (?h ! a))) None]"
      using null by (simp add: stmt_of_def)
    finally show ?thesis
      using True st ne bs store_open [OF ok ne]
      by (simp add: Parse_start_block_def update_back_def parser_rel_def live_type_def Let_def
          del: store_ok.simps frames_of.simps)
  qed
qed

lemma end_block_simulates:
  assumes "parser_rel s bs lt"
  shows "\<exists>o1. Parse_end_block s = Inr o1 \<and>
    outcome_rel s o1 (spec_step TOKEN_TYPE_END_BLOCK token bs lt)"
  using assms
proof (rule parser_relE)
  fix a as
  assume st: "config_stack s = a # as" "last_token_type s = lt" "braces_depth s = int (length as)"
    and ok: "store_ok (store s) (a # as)"
    and bs: "bs = map (stmt_of (store s)) (store s ! a) # map (open_frame (store s)) as"
  show ?thesis
  proof (cases as)
    case Nil
    with st bs show ?thesis by (auto simp: Parse_end_block_def)
  next
    case (Cons p ps)
    show ?thesis
      using store_close [of "store s" a p ps] ok st bs Cons
      by (auto simp: Parse_end_block_def parser_rel_def live_type_def Let_def)
  qed
qed

text \<open>Every pass of the loop is a step of the abstract parser, and none of them fails.\<close>

lemma step_simulates:
  assumes "parser_rel s bs lt"
  shows "\<exists>o1. Parse_step tt token s = Inr o1 \<and> outcome_rel s o1 (spec_step tt token bs lt)"
proof (cases tt)
  case TOKEN_TYPE_NORMAL
  then show ?thesis using normal_simulates [OF assms] by (simp del: spec_step.simps)
next
  case TOKEN_TYPE_START_BLOCK
  then show ?thesis using start_block_simulates [OF assms] by (simp del: spec_step.simps)
next
  case TOKEN_TYPE_END_BLOCK
  then show ?thesis using end_block_simulates [OF assms] by (simp del: spec_step.simps)
next
  case TOKEN_TYPE_STATEMENT_END
  then show ?thesis using assms by (auto simp: parser_rel_def live_type_def)
next
  case TOKEN_TYPE_EOF
  then show ?thesis using assms by (auto simp: parser_rel_def elim!: parser_relE)
qed (use assms in auto)

lemma loop_simulates:
  assumes "parser_rel s bs lt"
  shows "\<exists>ok tt s' bs' lt'. Parse_loop input s = Inr (ok, tt, s') \<and>
    spec_run (tokens_of input) bs lt = (ok, tt, bs', lt') \<and> parser_rel s' bs' lt'"
  using assms
proof (induction input s arbitrary: bs lt rule: Parse_loop.induct)
  case (1 input s)
  obtain tt token input' where nxt: "next_token input = (tt, token, input')"
    by (cases "next_token input") auto
  then have tok: "ParseToken input [] = Inr (tt, input', token)"
    by (simp add: ParseToken_next)
  obtain o1 where step: "Parse_step tt token s = Inr o1"
    and rel: "outcome_rel s o1 (spec_step tt token bs lt)"
    using step_simulates [OF "1.prems"] by blast
  have list: "tokens_of input = (tt, token) # (if final_token tt then [] else tokens_of input')"
    using tokens_of_unfold [of input] nxt by simp
  show ?case
  proof (cases o1)
    case Break
    with rel have "spec_step tt token bs lt = SBreak" by (cases "spec_step tt token bs lt") auto
    with Break tok step list "1.prems" show ?thesis
      by (subst Parse_loop.simps) auto
  next
    case Accept
    with rel have "spec_step tt token bs lt = SAccept" by (cases "spec_step tt token bs lt") auto
    with Accept tok step list "1.prems" show ?thesis
      by (subst Parse_loop.simps) auto
  next
    case (Next s2)
    with rel obtain bs2 lt2 where spec: "spec_step tt token bs lt = SNext bs2 lt2"
      and rel2: "parser_rel s2 bs2 lt2"
      by (cases "spec_step tt token bs lt") auto
    have "\<not> final_token tt" using step Next Parse_step_Next by blast
    with Next tok step list spec show ?thesis
      using "1.IH" [OF tok _ _ step Next rel2] by (subst Parse_loop.simps) simp
  qed
qed

section \<open>Parse and the abstract parser\<close>

lemma parser_rel_init:
  "parser_rel \<lparr>store = [map load_statement sts], config_stack = [0],
      last_token_type = TOKEN_TYPE_START, braces_depth = 0\<rparr> [sts] TOKEN_TYPE_START"
proof -
  have "stmt_of h (load_statement st) = st" for h st
    by (cases st) (auto simp: stmt_of_def load_statement_def split: option.splits)
  then have "map (stmt_of h) (map load_statement sts) = sts" for h
    by (simp add: map_idI)
  moreover have "child_in (load_statement st) a b" for st a b
    by (auto simp: child_in_def load_statement_def split: option.splits)
  ultimately show ?thesis
    by (auto simp: parser_rel_def live_type_def)
qed

lemma Parse_spec:
  "Parse input (Some (NginxConfig sts)) =
     (case spec_run (tokens_of input) [sts] TOKEN_TYPE_START of
        (ok, tt, bs, lt) \<Rightarrow> Inr (ok, if ok then [] else bad_transition lt tt, Some (built bs)))"
proof -
  obtain ok tt s bs lt where run: "Parse_loop input \<lparr>store = [map load_statement sts],
      config_stack = [0], last_token_type = TOKEN_TYPE_START, braces_depth = 0\<rparr> = Inr (ok, tt, s)"
    and spec: "spec_run (tokens_of input) [sts] TOKEN_TYPE_START = (ok, tt, bs, lt)"
    and rel: "parser_rel s bs lt"
    using loop_simulates [OF parser_rel_init] by blast
  obtain a as where "config_stack s = a # as" "store_ok (store s) (a # as)"
    "frames_of (store s) (a # as) = bs" "last_token_type s = lt"
    using rel by (cases "config_stack s") (auto simp: parser_rel_def)
  with store_built have "config_of (store s) 0 = built bs" by metis
  with run spec \<open>last_token_type s = lt\<close> show ?thesis
    by (simp add: Parse_def)
qed

end
