(* ===== verification/Grammar.thy ===== *)
theory Grammar
  imports Parser_Refinement
begin

text \<open>
  The language of configuration files and its parser. \<open>config_tokens\<close> writes a configuration
  tree as its sequence of tokens; the parser accepts exactly these sequences and returns the
  tree they come from. \<open>write_config\<close> writes a tree as text, and parsing the text gives the
  tree back.
\<close>

section \<open>Configurations as token sequences\<close>

abbreviation word_token :: "string \<Rightarrow> token_type \<times> string" where
  "word_token w \<equiv> (TOKEN_TYPE_NORMAL, w)"

abbreviation stop_token :: "token_type \<times> string" where
  "stop_token \<equiv> (TOKEN_TYPE_STATEMENT_END, [])"

abbreviation open_token :: "token_type \<times> string" where
  "open_token \<equiv> (TOKEN_TYPE_START_BLOCK, [])"

abbreviation close_token :: "token_type \<times> string" where
  "close_token \<equiv> (TOKEN_TYPE_END_BLOCK, [])"

fun config_tokens :: "nginx_config \<Rightarrow> (token_type \<times> string) list"
  and statement_tokens :: "nginx_statement \<Rightarrow> (token_type \<times> string) list" where
  "config_tokens (NginxConfig sts) = concat (map statement_tokens sts)"
| "statement_tokens (NginxConfigStatement ts None) = map word_token ts @ [stop_token]"
| "statement_tokens (NginxConfigStatement ts (Some c)) =
     map word_token ts @ [open_token] @ config_tokens c @ [close_token]"

text \<open>A statement has at least one word.\<close>

fun wf_config :: "nginx_config \<Rightarrow> bool" and wf_statement :: "nginx_statement \<Rightarrow> bool" where
  "wf_config (NginxConfig sts) \<longleftrightarrow> (\<forall>st \<in> set sts. wf_statement st)"
| "wf_statement (NginxConfigStatement ts None) \<longleftrightarrow> ts \<noteq> []"
| "wf_statement (NginxConfigStatement ts (Some c)) \<longleftrightarrow> ts \<noteq> [] \<and> wf_config c"

text \<open>What the parser looks at: no comments, and the text of words only.\<close>

fun norm_token :: "token_type \<times> string \<Rightarrow> token_type \<times> string" where
  "norm_token (tt, v) = (tt, if tt = TOKEN_TYPE_NORMAL then v else [])"

definition significant :: "(token_type \<times> string) list \<Rightarrow> (token_type \<times> string) list" where
  "significant ts = map norm_token (filter (\<lambda>(tt, v). tt \<noteq> TOKEN_TYPE_COMMENT) ts)"

lemma significant_simps [simp]:
  "significant [] = []"
  "significant ((tt, v) # ts) =
     (if tt = TOKEN_TYPE_COMMENT then [] else [norm_token (tt, v)]) @ significant ts"
  by (simp_all add: significant_def)

lemma spec_step_norm: "spec_step tt (snd (norm_token (tt, v))) bs lt = spec_step tt v bs lt"
  by (cases tt) auto

lemma spec_run_significant: "spec_run (significant ts) bs lt = spec_run ts bs lt"
proof (induction ts arbitrary: bs lt)
  case Nil
  then show ?case by simp
next
  case (Cons t ts)
  obtain tt v where t: "t = (tt, v)" by (cases t)
  show ?case
    using Cons.IH spec_step_norm [of tt v bs lt] t
    by (cases "tt = TOKEN_TYPE_COMMENT") (auto split: spec_outcome.splits)
qed

section \<open>Soundness: what was read is what was built\<close>

text \<open>The tokens an open block stands for, by whether its last statement is still being read.\<close>

definition partial_tokens :: "nginx_statement list \<Rightarrow> (token_type \<times> string) list" where
  "partial_tokens b =
     concat (map statement_tokens (butlast b)) @ map word_token (tokens (last b))"

definition top_tokens :: "nginx_statement list \<Rightarrow> token_type \<Rightarrow> (token_type \<times> string) list" where
  "top_tokens b lt =
     (if lt = TOKEN_TYPE_NORMAL then partial_tokens b else concat (map statement_tokens b))"

fun lower_tokens :: "open_blocks \<Rightarrow> (token_type \<times> string) list" where
  "lower_tokens [] = []"
| "lower_tokens (b # bs) = lower_tokens bs @ partial_tokens b @ [open_token]"

fun read_tokens :: "open_blocks \<Rightarrow> token_type \<Rightarrow> (token_type \<times> string) list" where
  "read_tokens [] lt = []"
| "read_tokens (b # bs) lt = lower_tokens bs @ top_tokens b lt"

text \<open>A block whose last statement is still being read.\<close>

definition partial_block :: "nginx_statement list \<Rightarrow> bool" where
  "partial_block b \<longleftrightarrow> b \<noteq> [] \<and> child_block (last b) = None \<and> tokens (last b) \<noteq> [] \<and>
     (\<forall>st \<in> set (butlast b). wf_statement st)"

fun blocks_ok :: "open_blocks \<Rightarrow> token_type \<Rightarrow> bool" where
  "blocks_ok [] lt \<longleftrightarrow> False"
| "blocks_ok (b # bs) lt \<longleftrightarrow> list_all partial_block bs \<and>
     (if lt = TOKEN_TYPE_NORMAL then partial_block b else \<forall>st \<in> set b. wf_statement st) \<and>
     (lt \<in> {TOKEN_TYPE_STATEMENT_END, TOKEN_TYPE_END_BLOCK} \<longrightarrow> b \<noteq> [])"

lemma partial_block_split:
  assumes "partial_block b"
  obtains sts ts where "b = sts @ [NginxConfigStatement ts None]" and "ts \<noteq> []"
    and "\<forall>st \<in> set sts. wf_statement st"
  using assms
  by (cases b rule: rev_cases; cases "last b") (auto simp: partial_block_def)

lemma spec_step_reads:
  assumes "blocks_ok bs lt" and "tt \<noteq> TOKEN_TYPE_COMMENT" and "spec_step tt v bs lt = SNext bs' lt'"
  shows "blocks_ok bs' lt' \<and> read_tokens bs' lt' = read_tokens bs lt @ [norm_token (tt, v)]"
proof -
  obtain b cs where bs: "bs = b # cs" using assms(1) by (cases bs) auto
  show ?thesis
  proof (cases tt)
    case TOKEN_TYPE_NORMAL
    with assms bs show ?thesis
      by (cases "lt = TOKEN_TYPE_NORMAL")
        (auto simp: top_tokens_def partial_tokens_def partial_block_def)
  next
    case TOKEN_TYPE_STATEMENT_END
    with assms bs have "partial_block b" and "lt = TOKEN_TYPE_NORMAL" by (auto split: if_splits)
    with TOKEN_TYPE_STATEMENT_END assms bs show ?thesis
      by (auto simp: top_tokens_def partial_tokens_def elim!: partial_block_split)
  next
    case TOKEN_TYPE_START_BLOCK
    with assms bs show ?thesis
      by (auto simp: top_tokens_def split: if_splits)
  next
    case TOKEN_TYPE_END_BLOCK
    with assms bs obtain p ds where cs: "cs = p # ds" and lt: "lt \<noteq> TOKEN_TYPE_NORMAL"
      and p: "partial_block p"
      by (cases cs) (auto split: if_splits)
    from p TOKEN_TYPE_END_BLOCK assms bs cs lt show ?thesis
      by (auto simp: top_tokens_def partial_tokens_def split: if_splits elim!: partial_block_split)
  qed (use assms in \<open>auto split: if_splits\<close>)
qed

lemma spec_run_sound:
  assumes "blocks_ok bs lt" and "spec_run ts bs lt = (True, tt, bs', lt')"
  shows "\<exists>sts rest1. bs' = [sts] \<and> (\<forall>st \<in> set sts. wf_statement st) \<and> sts \<noteq> [] \<and>
    read_tokens bs lt @ significant ts =
      concat (map statement_tokens sts) @ (TOKEN_TYPE_EOF, []) # rest1"
  using assms
proof (induction ts arbitrary: bs lt)
  case Nil
  then show ?case by simp
next
  case (Cons t ts)
  obtain t1 v where t: "t = (t1, v)" by (cases t)
  show ?case
  proof (cases "spec_step t1 v bs lt")
    case SBreak
    with Cons.prems t show ?thesis by simp
  next
    case SAccept
    then have "t1 = TOKEN_TYPE_EOF" and "lt \<in> {TOKEN_TYPE_STATEMENT_END, TOKEN_TYPE_END_BLOCK}"
      and "length bs = 1"
      by (cases t1; auto split: if_splits)+
    with Cons.prems t SAccept show ?thesis
      by (cases bs) (auto simp: top_tokens_def)
  next
    case (SNext bs2 lt2)
    show ?thesis
    proof (cases "t1 = TOKEN_TYPE_COMMENT")
      case True
      with Cons SNext t show ?thesis by auto
    next
      case False
      with spec_step_reads [OF Cons.prems(1) False SNext] Cons.IH [of bs2 lt2] Cons.prems SNext t
      show ?thesis by auto
    qed
  qed
qed

section \<open>Completeness: every configuration is read\<close>

lemma spec_run_words:
  "ts \<noteq> [] \<Longrightarrow> lt \<noteq> TOKEN_TYPE_NORMAL \<Longrightarrow>
   spec_run (map word_token ts @ rest1) (b # bs) lt =
     spec_run rest1 ((b @ [NginxConfigStatement ts None]) # bs) TOKEN_TYPE_NORMAL"
proof (induction ts arbitrary: rest1 rule: rev_induct)
  case Nil
  then show ?case by simp
next
  case (snoc t ts)
  then show ?case
    by (cases "ts = []") auto
qed

definition closed_type :: "token_type \<Rightarrow> bool" where
  "closed_type lt \<longleftrightarrow> lt = TOKEN_TYPE_STATEMENT_END \<or> lt = TOKEN_TYPE_END_BLOCK"

lemma spec_run_config_and_statement:
  shows "wf_config c \<Longrightarrow> lt \<noteq> TOKEN_TYPE_NORMAL \<Longrightarrow>
      \<exists>lt'. (closed_type lt' \<or> statements c = [] \<and> lt' = lt) \<and>
        spec_run (config_tokens c @ rest1) (b # bs) lt = spec_run rest1 ((b @ statements c) # bs) lt'"
    and "wf_statement st \<Longrightarrow> lt \<noteq> TOKEN_TYPE_NORMAL \<Longrightarrow>
      \<exists>lt'. closed_type lt' \<and>
        spec_run (statement_tokens st @ rest1) (b # bs) lt = spec_run rest1 ((b @ [st]) # bs) lt'"
proof (induction c and st arbitrary: lt rest1 b bs and lt rest1 b bs
    rule: config_tokens_statement_tokens.induct)
  case (1 sts)
  then show ?case
  proof (induction sts arbitrary: lt b)
    case Nil
    then show ?case by auto
  next
    case (Cons st sts)
    have "\<exists>lt1. closed_type lt1 \<and>
        spec_run (statement_tokens st @ concat (map statement_tokens sts) @ rest1) (b # bs) lt =
        spec_run (concat (map statement_tokens sts) @ rest1) ((b @ [st]) # bs) lt1"
      using Cons.prems(2,3) by (intro Cons.prems(1)) auto
    then obtain lt1 where lt1: "closed_type lt1"
      and "spec_run (statement_tokens st @ concat (map statement_tokens sts) @ rest1) (b # bs) lt =
        spec_run (concat (map statement_tokens sts) @ rest1) ((b @ [st]) # bs) lt1"
      by blast
    moreover obtain lt2 where "closed_type lt2 \<or> sts = [] \<and> lt2 = lt1"
      and "spec_run (config_tokens (NginxConfig sts) @ rest1) ((b @ [st]) # bs) lt1 =
        spec_run rest1 (((b @ [st]) @ sts) # bs) lt2"
      using Cons.IH [of lt1 "b @ [st]"] Cons.prems lt1 by (auto simp: closed_type_def)
    ultimately show ?case by auto
  qed
next
  case (2 ts)
  then show ?case
    by (auto simp: spec_run_words closed_type_def)
next
  case (3 ts c)
  let ?b = "b @ [NginxConfigStatement ts None]"
  obtain lt1 where "closed_type lt1 \<or> statements c = [] \<and> lt1 = TOKEN_TYPE_START_BLOCK"
    and "spec_run (config_tokens c @ close_token # rest1) ([] # ?b # bs) TOKEN_TYPE_START_BLOCK =
      spec_run (close_token # rest1) (statements c # ?b # bs) lt1"
    using "3.IH" [of TOKEN_TYPE_START_BLOCK "close_token # rest1" "[]" "?b # bs"] "3.prems" by auto
  moreover have "NginxConfig (statements c) = c" by simp
  ultimately show ?case
    using 3 by (auto simp: spec_run_words closed_type_def)
qed

lemma spec_run_complete:
  assumes "wf_config c" and "statements c \<noteq> []"
  shows "\<exists>lt. spec_run (config_tokens c @ (TOKEN_TYPE_EOF, v) # rest1) [[]] TOKEN_TYPE_START =
    (True, TOKEN_TYPE_EOF, [statements c], lt)"
  using spec_run_config_and_statement(1) [OF assms(1), of TOKEN_TYPE_START
      "(TOKEN_TYPE_EOF, v) # rest1" "[]" "[]"] assms(2)
  by (auto simp: closed_type_def)

section \<open>The language of the parser\<close>

lemma eof_last:
  assumes "significant (tokens_of input) = ts @ (TOKEN_TYPE_EOF, v) # rest1"
  shows "rest1 = []"
proof -
  obtain pre tt w where split: "tokens_of input = pre @ [(tt, w)]" and fin: "final_token tt"
    and pre: "list_all (\<lambda>(t, w). \<not> final_token t \<and> t \<noteq> TOKEN_TYPE_START \<and>
        (t = TOKEN_TYPE_NORMAL \<longrightarrow> w \<noteq> [])) pre"
    using stream_tokens.pull_complete [of input "Suc (unread input)"]
    by (auto simp: tokens_of_def)
  have "significant (tokens_of input) = significant pre @ [norm_token (tt, w)]"
    using split fin by (auto simp: significant_def)
  moreover have "(TOKEN_TYPE_EOF, v) \<notin> set (significant pre)"
    using pre by (auto simp: significant_def list_all_iff)
  ultimately show ?thesis
    using assms by (cases rest1 rule: rev_cases) (auto, metis in_set_conv_decomp)
qed

lemma Parse_language:
  "Parse input (Some (NginxConfig [])) = Inr (True, msg, Some cfg) \<longleftrightarrow>
     msg = [] \<and> wf_config cfg \<and> statements cfg \<noteq> [] \<and>
     significant (tokens_of input) = config_tokens cfg @ [(TOKEN_TYPE_EOF, [])]"
    (is "?parse \<longleftrightarrow> ?lang")
proof
  assume ?parse
  then obtain tt bs lt where run: "spec_run (tokens_of input) [[]] TOKEN_TYPE_START = (True, tt, bs, lt)"
    and built: "cfg = built bs" and msg: "msg = []"
    by (auto simp: Parse_spec split: prod.splits)
  obtain sts rest1 where "bs = [sts]" "\<forall>st \<in> set sts. wf_statement st" "sts \<noteq> []"
    "significant (tokens_of input) = concat (map statement_tokens sts) @ (TOKEN_TYPE_EOF, []) # rest1"
    using spec_run_sound [OF _ run] by (auto simp: top_tokens_def)
  with eof_last built msg show ?lang by fastforce
next
  assume lang: ?lang
  then obtain lt where "spec_run (significant (tokens_of input)) [[]] TOKEN_TYPE_START =
      (True, TOKEN_TYPE_EOF, [statements cfg], lt)"
    using spec_run_complete [of cfg "[]" "[]"] by auto
  then have "spec_run (tokens_of input) [[]] TOKEN_TYPE_START =
      (True, TOKEN_TYPE_EOF, [statements cfg], lt)"
    by (simp only: spec_run_significant)
  with lang show ?parse by (simp add: Parse_spec)
qed

section \<open>Printing configurations\<close>

text \<open>
  A word is written as it is where the tokenizer reads it back so, and in double quotes
  otherwise; a space follows every word.
\<close>

definition print_word :: "string \<Rightarrow> string" where
  "print_word w = (if bare w then w else print_token ch_dquote w) @ [ch_space]"

fun write_config :: "nginx_config \<Rightarrow> string" and write_statement :: "nginx_statement \<Rightarrow> string" where
  "write_config (NginxConfig sts) = concat (map write_statement sts)"
| "write_statement (NginxConfigStatement ts None) =
     concat (map print_word ts) @ [ch_semi, ch_lf]"
| "write_statement (NginxConfigStatement ts (Some c)) =
     concat (map print_word ts) @ [ch_lbrace, ch_lf] @ write_config c @ [ch_rbrace, ch_lf]"

text \<open>The configurations that can be written: well formed, every word bare or quotable.\<close>

fun printable_config :: "nginx_config \<Rightarrow> bool" and printable_statement :: "nginx_statement \<Rightarrow> bool" where
  "printable_config (NginxConfig sts) \<longleftrightarrow> (\<forall>st \<in> set sts. printable_statement st)"
| "printable_statement (NginxConfigStatement ts None) \<longleftrightarrow>
     ts \<noteq> [] \<and> list_all (\<lambda>w. bare w \<or> quotable w) ts"
| "printable_statement (NginxConfigStatement ts (Some c)) \<longleftrightarrow>
     ts \<noteq> [] \<and> list_all (\<lambda>w. bare w \<or> quotable w) ts \<and> printable_config c"

lemma printable_wf:
  "printable_config c \<Longrightarrow> wf_config c"
  "printable_statement st \<Longrightarrow> wf_statement st"
  by (induction c and st rule: config_tokens_statement_tokens.induct) auto

text \<open>The significant tokens of the unread part of a stream.\<close>

definition toks :: "char list \<Rightarrow> string \<Rightarrow> (token_type \<times> string) list" where
  "toks d t = significant (tokens_of (Some (reading d t)))"

lemma next_token_reading:
  "ParseToken_loop TOKEN_STATE_INITIAL_WHITESPACE i [] = Inr (tt, i', v) \<Longrightarrow>
     next_token (Some i) = (tt, v, Some i')"
  by (simp add: next_token_def ParseToken_def)

lemma toks_token:
  assumes "ParseToken_loop TOKEN_STATE_INITIAL_WHITESPACE (reading d t) [] = Inr (tt, reading d' t', v)"
    and "\<not> final_token tt" and "tt \<noteq> TOKEN_TYPE_COMMENT"
  shows "toks d t = norm_token (tt, v) # toks d' t'"
  using assms next_token_reading [OF assms(1)]
  by (subst toks_def, subst tokens_of_unfold) (auto simp: toks_def)

lemma toks_space:
  assumes "c \<in> {ch_space, ch_tab, ch_lf, ch_cr}"
  shows "toks d (c # t) = toks (c # d) t"
proof -
  obtain r where "ParseToken_loop TOKEN_STATE_INITIAL_WHITESPACE (reading (c # d) t) [] = Inr r"
    by (rule succeedsE [OF ParseToken_loop_total])
  then have "next_token (Some (reading d (c # t))) = next_token (Some (reading (c # d) t))"
    using loop_skip_space [OF assms, of d t "[]"] by (cases r) (simp add: next_token_reading)
  then show ?thesis
    by (simp add: toks_def tokens_of_unfold [of "Some (reading d (c # t))"]
        tokens_of_unfold [of "Some (reading (c # d) t)"])
qed

lemma toks_punctuation:
  "toks d (ch_semi # t) = stop_token # toks (ch_semi # d) t"
  "toks d (ch_lbrace # t) = open_token # toks (ch_lbrace # d) t"
  "toks d (ch_rbrace # t) = close_token # toks (ch_rbrace # d) t"
  using loop_punctuation [of d t "[]"] by (simp_all add: toks_token)

lemma toks_word:
  assumes "bare w \<or> quotable w"
  shows "\<exists>d'. toks d (print_word w @ t) = word_token w # toks d' t"
proof (cases "bare w")
  case True
  then have "toks d (print_word w @ t) = word_token w # toks (rev w @ d) (ch_space # t)"
    using loop_bare_token [of w ch_space d t] by (simp add: print_word_def ends_token_def toks_token)
  then show ?thesis by (auto simp: toks_space)
next
  case False
  then have "toks d (print_word w @ t) =
      word_token w # toks (rev (print_token ch_dquote w) @ d) (ch_space # t)"
    using assms loop_print_token [of ch_dquote w ch_space d t]
    by (simp add: print_word_def closes_quote_def isspace_def toks_token)
  then show ?thesis by (auto simp: toks_space)
qed

lemma toks_words:
  "list_all (\<lambda>w. bare w \<or> quotable w) ts \<Longrightarrow>
     \<exists>d'. toks d (concat (map print_word ts) @ t) = map word_token ts @ toks d' t"
proof (induction ts arbitrary: d)
  case Nil
  then show ?case by auto
next
  case (Cons w ts)
  obtain d1 where "toks d (print_word w @ concat (map print_word ts) @ t) =
      word_token w # toks d1 (concat (map print_word ts) @ t)"
    using toks_word [of w] Cons.prems by auto
  then show ?case using Cons by auto
qed

lemma toks_print:
  "printable_config c \<Longrightarrow> \<exists>d'. toks d (write_config c @ t) = config_tokens c @ toks d' t"
  "printable_statement st \<Longrightarrow> \<exists>d'. toks d (write_statement st @ t) = statement_tokens st @ toks d' t"
proof (induction c and st arbitrary: d t and d t rule: config_tokens_statement_tokens.induct)
  case (1 sts)
  then show ?case
  proof (induction sts arbitrary: d)
    case Nil
    then show ?case by auto
  next
    case (Cons st sts)
    have "\<exists>d'. toks d (write_statement st @ concat (map write_statement sts) @ t) =
        statement_tokens st @ toks d' (concat (map write_statement sts) @ t)"
      using Cons.prems(2) by (intro Cons.prems(1)) auto
    then show ?case using Cons by fastforce
  qed
next
  case (2 ts)
  then show ?case
    using toks_words [of ts d "[ch_semi, ch_lf] @ t"] by (auto simp: toks_punctuation toks_space)
next
  case (3 ts c)
  obtain d1 where 1: "toks d (concat (map print_word ts) @ [ch_lbrace, ch_lf] @ write_config c @ [ch_rbrace, ch_lf] @ t) =
      map word_token ts @ toks d1 ([ch_lbrace, ch_lf] @ write_config c @ [ch_rbrace, ch_lf] @ t)"
    using toks_words [of ts d] "3.prems" by auto
  obtain d2 where "toks (ch_lf # ch_lbrace # d1) (write_config c @ [ch_rbrace, ch_lf] @ t) =
      config_tokens c @ toks d2 ([ch_rbrace, ch_lf] @ t)"
    using "3.IH" "3.prems" by auto
  with 1 show ?case
    by (auto simp: toks_punctuation toks_space)
qed

text \<open>A word that the end of the file cuts off is dropped, whatever it is.\<close>

lemma toks_cut_off:
  assumes "s = [] \<or> bare s"
  shows "toks d s = [(TOKEN_TYPE_EOF, [])]"
proof -
  have "\<exists>i v. ParseToken_loop TOKEN_STATE_INITIAL_WHITESPACE (reading d s) [] = Inr (TOKEN_TYPE_EOF, i, v)"
  proof (cases s)
    case Nil
    then show ?thesis
      using loop_Nil [of TOKEN_STATE_INITIAL_WHITESPACE d "[]"] by (auto simp: ParseToken_end_def)
  next
    case (Cons c s')
    with assms have "ParseToken_loop TOKEN_STATE_INITIAL_WHITESPACE (reading d s) [] =
        ParseToken_loop TOKEN_STATE_TOKEN_TYPE_NORMAL (reading (c # d) (s' @ [])) [c]"
      by (auto simp: loop_Cons bare_def starts_token_def ends_token_def)
    also have "\<dots> = ParseToken_loop TOKEN_STATE_TOKEN_TYPE_NORMAL (reading (rev s' @ c # d) []) s"
      using assms Cons by (subst loop_normal_chars) (auto simp: bare_def)
    finally show ?thesis
      using loop_Nil [of TOKEN_STATE_TOKEN_TYPE_NORMAL "rev s' @ c # d" s]
      by (auto simp: ParseToken_end_def)
  qed
  then show ?thesis
    by (auto simp: toks_def tokens_of_unfold dest!: next_token_reading)
qed

lemma Parse_print:
  assumes "printable_config cfg" and "statements cfg \<noteq> []" and "s = [] \<or> bare s"
  shows "Parse (Some (open_text (write_config cfg @ s))) (Some (NginxConfig [])) =
    Inr (True, [], Some cfg)"
proof -
  have "significant (tokens_of (Some (open_text (write_config cfg @ s)))) =
      config_tokens cfg @ [(TOKEN_TYPE_EOF, [])]"
    using toks_print(1) [OF assms(1), of "[]" s] toks_cut_off [OF assms(3)]
    by (auto simp: toks_def open_text_def)
  with assms show ?thesis
    by (simp add: Parse_language printable_wf)
qed

section \<open>Properties\<close>

text \<open>
  C1: On every input stream, null or in any state, and every configuration passed to it, \<open>Parse\<close>
  returns, and its result, what it prints and the configuration it leaves behind are those of the
  parser that works on a stack of open blocks without pointers: the tree built through raw
  pointers into shared blocks is the tree of that stack.
\<close>

theorem Parse_refines:
  "Parse input (Some (NginxConfig sts)) =
     (case spec_run (tokens_of input) [sts] TOKEN_TYPE_START of
        (ok, tt, bs, lt) \<Rightarrow> Inr (ok, if ok then [] else bad_transition lt tt, Some (built bs)))"
  by (rule Parse_spec)

text \<open>
  C3: \<open>Parse\<close> accepts exactly the grammar of configuration files: it returns true with a
  configuration if and only if that configuration is not empty, every statement in it has a word,
  and the tokens of the input, without comments, are the tokens of that configuration.
\<close>

theorem Parse_accepts:
  "Parse input (Some (NginxConfig [])) = Inr (True, msg, Some cfg) \<longleftrightarrow>
     msg = [] \<and> wf_config cfg \<and> statements cfg \<noteq> [] \<and>
     significant (tokens_of input) = config_tokens cfg @ [(TOKEN_TYPE_EOF, [])]"
  by (rule Parse_language)

text \<open>
  C8: A configuration that is not empty and whose words can be written, bare or in quotes, is
  read back from its text unchanged.
\<close>

theorem Parse_roundtrip:
  assumes "printable_config cfg" and "statements cfg \<noteq> []"
  shows "Parse (Some (open_text (write_config cfg))) (Some (NginxConfig [])) = Inr (True, [], Some cfg)"
  using Parse_print [OF assms, of "[]"] by simp

theorem Parse_roundtrip_witness:
  "Parse (Some (open_text (write_config (NginxConfig
       [NginxConfigStatement [''server''] (Some (NginxConfig [NginxConfigStatement [''a b'', ''80''] None]))]))))
     (Some (NginxConfig [])) =
   Inr (True, [], Some (NginxConfig
       [NginxConfigStatement [''server''] (Some (NginxConfig [NginxConfigStatement [''a b'', ''80''] None]))]))"
  by (rule Parse_roundtrip) (simp_all add: bare_def starts_token_def ends_token_def quotable_def)

text \<open>
  C38: A word after the last statement that is cut off by the end of the file is dropped without
  notice: the parser reports success and the configuration without the word.
\<close>

theorem Parse_drops_unfinished_word:
  assumes "printable_config cfg" and "statements cfg \<noteq> []" and "bare s"
  shows "Parse (Some (open_text (write_config cfg @ s))) (Some (NginxConfig [])) = Inr (True, [], Some cfg)"
  using Parse_print [OF assms(1,2)] assms(3) by simp

theorem Parse_drops_unfinished_word_witness:
  "Parse (Some (open_text (write_config (NginxConfig [NginxConfigStatement [''a''] None]) @ ''port'')))
     (Some (NginxConfig [])) = Inr (True, [], Some (NginxConfig [NginxConfigStatement [''a''] None]))"
  by (rule Parse_drops_unfinished_word) (simp_all add: bare_def starts_token_def ends_token_def)

text \<open>
  With one argument \<open>parse_args\<close> always returns 0, whether the file opens, and whether it
  parses, or not, and hands on whatever configuration the parser had built by then.
\<close>

lemma parse_args_returns:
  "\<exists>ok printed c. Parse_file open_file f (Some cfg) = Inr (ok, printed, Some c) \<and>
     parse_args open_file 2 [prog, f] (Some cfg) = Inr (Returned (0, printed, Some c))"
proof -
  obtain sts where cfg: "cfg = NginxConfig sts" by (cases cfg)
  have "\<exists>ok printed c. Parse_file open_file f (Some cfg) = Inr (ok, printed, Some c)"
    by (cases "open_file f") (auto simp: Parse_file_def cfg Parse_spec split: prod.split)
  then show ?thesis by (auto simp: parse_args_def)
qed

end
