(* ===== verification/Http.thy ===== *)
theory Http
  imports Config
begin

text \<open>
  HTTP messages and the base class of the handlers (\<open>include/handler.h\<close>, \<open>src/handler.cc\<close>).
  The message classes are Boost.Beast's. Their data are records here; what Beast does with a
  message (setting and finding header fields, \<open>prepare_payload\<close>, \<open>need_eof\<close>, writing it out)
  is a parameter, the record \<open>beast\<close>, and \<open>beast_laws\<close> collects what its documentation
  promises. \<open>ref_beast\<close> shows that the promises can be kept.
\<close>

section \<open>Messages\<close>

type_synonym fields = "(string \<times> string) list"

record http_request =
  req_method :: string
  req_target :: string
  req_version :: nat
  req_fields :: fields
  req_body :: string

record http_response =
  res_version :: nat
  res_result :: nat
  res_fields :: fields
  res_body :: string

text \<open>Default construction: HTTP/1.1, status 200, no fields, no body.\<close>

definition empty_response :: http_response where
  "empty_response = \<lparr>res_version = 11, res_result = 200, res_fields = [], res_body = []\<rparr>"

definition empty_request :: http_request where
  "empty_request = \<lparr>req_method = [], req_target = [], req_version = 11, req_fields = [], req_body = []\<rparr>"

section \<open>The library interface\<close>

text \<open>
  \<^item> \<open>set_field\<close>, \<open>find_field\<close>: \<open>basic_fields::set\<close>, and \<open>find\<close> with \<open>at\<close>;
  \<^item> \<open>payload\<close>: \<open>prepare_payload\<close> of a response, \<open>payload_throws\<close> where it throws instead
    (a body with a status that must not have one);
  \<^item> \<open>payload_req\<close>: \<open>prepare_payload\<close> of a request, \<open>payload_req_throws\<close> where it throws instead
    (a body with the method \<open>TRACE\<close>);
  \<^item> \<open>need_eof\<close>: the member of that name;
  \<^item> \<open>redirection\<close>: \<open>to_status_class(res.result()) == status_class::redirection\<close>;
  \<^item> \<open>write_request\<close>, \<open>write_response\<close>: \<open>operator<<\<close> into a string stream.
\<close>

record beast =
  set_field :: "string \<Rightarrow> string \<Rightarrow> fields \<Rightarrow> fields"
  find_field :: "string \<Rightarrow> fields \<Rightarrow> string option"
  payload :: "http_response \<Rightarrow> http_response"
  payload_throws :: "http_response \<Rightarrow> bool"
  payload_req :: "http_request \<Rightarrow> http_request"
  payload_req_throws :: "http_request \<Rightarrow> bool"
  need_eof :: "http_response \<Rightarrow> bool"
  redirection :: "http_response \<Rightarrow> bool"
  write_request :: "http_request \<Rightarrow> string"
  write_response :: "http_response \<Rightarrow> string"

definition to_lower :: "char \<Rightarrow> char" where
  "to_lower c = (if 65 \<le> (of_char c :: nat) \<and> (of_char c :: nat) \<le> 90
                 then char_of (of_char c + 32 :: nat) else c)"

text \<open>Field names are compared without regard to case.\<close>

definition same_name :: "string \<Rightarrow> string \<Rightarrow> bool" where
  "same_name n m \<longleftrightarrow> map to_lower n = map to_lower m"

definition field_laws :: "beast \<Rightarrow> bool" where
  "field_laws B \<longleftrightarrow>
     (\<forall>n. find_field B n [] = None) \<and>
     (\<forall>n m v fs. same_name n m \<longrightarrow> find_field B m (set_field B n v fs) = Some v) \<and>
     (\<forall>n m v fs. \<not> same_name n m \<longrightarrow> find_field B m (set_field B n v fs) = find_field B m fs)"

text \<open>
  \<open>prepare_payload\<close> of a response with a string body sets \<open>Content-Length\<close> to the size of the
  body and leaves everything but the two payload fields alone.
\<close>

definition payload_laws :: "beast \<Rightarrow> bool" where
  "payload_laws B \<longleftrightarrow>
     (\<forall>r. res_version (payload B r) = res_version r \<and> res_result (payload B r) = res_result r \<and>
        res_body (payload B r) = res_body r \<and>
        find_field B ''Content-Length'' (res_fields (payload B r)) = Some (to_string (length (res_body r))) \<and>
        (\<forall>n. \<not> same_name ''Content-Length'' n \<and> \<not> same_name ''Transfer-Encoding'' n \<longrightarrow>
           find_field B n (res_fields (payload B r)) = find_field B n (res_fields r))) \<and>
     (\<forall>r. req_method (payload_req B r) = req_method r \<and> req_target (payload_req B r) = req_target r \<and>
        req_version (payload_req B r) = req_version r \<and> req_body (payload_req B r) = req_body r \<and>
        (\<forall>n. \<not> same_name ''Content-Length'' n \<and> \<not> same_name ''Transfer-Encoding'' n \<longrightarrow>
           find_field B n (req_fields (payload_req B r)) = find_field B n (req_fields r)))"

text \<open>An HTTP/1.1 response with a known length on a persistent connection needs no end of file.\<close>

definition eof_laws :: "beast \<Rightarrow> bool" where
  "eof_laws B \<longleftrightarrow>
     (\<forall>r. res_version r = 11 \<and> find_field B ''Content-Length'' (res_fields r) \<noteq> None \<and>
        find_field B ''Connection'' (res_fields r) = Some ''keep-alive'' \<longrightarrow> \<not> need_eof B r)"

definition beast_laws :: "beast \<Rightarrow> bool" where
  "beast_laws B \<longleftrightarrow> field_laws B \<and> payload_laws B \<and> eof_laws B"

section \<open>A reference instance\<close>

definition ref_find :: "string \<Rightarrow> fields \<Rightarrow> string option" where
  "ref_find n fs = map_option snd (find (\<lambda>(m, v). same_name n m) fs)"

definition ref_set :: "string \<Rightarrow> string \<Rightarrow> fields \<Rightarrow> fields" where
  "ref_set n v fs = filter (\<lambda>(m, w). \<not> same_name n m) fs @ [(n, v)]"

definition ref_beast :: beast where
  "ref_beast = \<lparr>set_field = ref_set, find_field = ref_find,
     payload = (\<lambda>r. r\<lparr>res_fields := ref_set ''Content-Length'' (to_string (length (res_body r))) (res_fields r)\<rparr>),
     payload_throws = (\<lambda>r. res_body r \<noteq> [] \<and>
       (res_result r div 100 = 1 \<or> res_result r = 204 \<or> res_result r = 304)),
     payload_req = (\<lambda>r. if req_body r = [] then r
       else r\<lparr>req_fields := ref_set ''Content-Length'' (to_string (length (req_body r))) (req_fields r)\<rparr>),
     payload_req_throws = (\<lambda>r. req_method r = ''TRACE'' \<and> req_body r \<noteq> []),
     need_eof = (\<lambda>r. \<not> (ref_find ''Content-Length'' (res_fields r) \<noteq> None \<and>
       ref_find ''Connection'' (res_fields r) \<noteq> Some ''close'')),
     redirection = (\<lambda>r. res_result r div 100 = 3),
     write_request = (\<lambda>r. req_method r @ '' '' @ req_target r @ '' HTTP/1.1'' @ [ch_cr, ch_lf] @
       concat (map (\<lambda>(n, v). n @ '': '' @ v @ [ch_cr, ch_lf]) (req_fields r)) @ [ch_cr, ch_lf] @ req_body r),
     write_response = (\<lambda>r. ''HTTP/1.1 '' @ to_string (res_result r) @ [ch_cr, ch_lf] @
       concat (map (\<lambda>(n, v). n @ '': '' @ v @ [ch_cr, ch_lf]) (res_fields r)) @ [ch_cr, ch_lf] @ res_body r)\<rparr>"

lemma same_name_refl [simp]: "same_name n n"
  by (simp add: same_name_def)

lemma same_name_sym: "same_name n m \<Longrightarrow> same_name m n"
  by (simp add: same_name_def)

lemma same_name_trans: "same_name n m \<Longrightarrow> same_name m k \<Longrightarrow> same_name n k"
  by (simp add: same_name_def)

lemma find_append: "find P (xs @ ys) = (case find P xs of Some x \<Rightarrow> Some x | None \<Rightarrow> find P ys)"
  by (induction xs) auto

lemma ref_find_set_same: "same_name n m \<Longrightarrow> ref_find m (ref_set n v fs) = Some v"
proof -
  assume nm: "same_name n m"
  have "find (\<lambda>(k, w). same_name m k) (filter (\<lambda>(k, w). \<not> same_name n k) fs) = None"
    using nm by (auto simp: find_None_iff dest: same_name_trans)
  with nm show ?thesis by (simp add: ref_find_def ref_set_def find_append same_name_sym)
qed

lemma ref_find_set_other:
  assumes "\<not> same_name n m"
  shows "ref_find m (ref_set n v fs) = ref_find m fs"
proof -
  have ext: "\<not> same_name n k" if "same_name m k" for k
    using assms that by (metis same_name_sym same_name_trans)
  have "find (\<lambda>(k, w). same_name m k) (filter (\<lambda>(k, w). \<not> same_name n k) fs) =
      find (\<lambda>(k, w). same_name m k) fs"
    by (induction fs) (auto dest: ext)
  moreover have "\<not> same_name m n"
    using assms by (auto dest: same_name_sym)
  ultimately show ?thesis
    by (auto simp: ref_find_def ref_set_def find_append split: option.splits)
qed

lemma ref_beast_laws: "beast_laws ref_beast"
  by (auto simp: beast_laws_def field_laws_def payload_laws_def eof_laws_def ref_beast_def
      ref_find_set_same ref_find_set_other) (simp add: ref_find_def)

section \<open>Reading fields under the laws\<close>

lemma field_nil: "beast_laws B \<Longrightarrow> find_field B n [] = None"
  by (simp add: beast_laws_def field_laws_def)

lemma find_set:
  "beast_laws B \<Longrightarrow> find_field B m (set_field B n v fs) =
     (if same_name n m then Some v else find_field B m fs)"
  by (simp add: beast_laws_def field_laws_def)

lemma payload_simps:
  assumes "beast_laws B"
  shows "res_version (payload B r) = res_version r"
    and "res_result (payload B r) = res_result r"
    and "res_body (payload B r) = res_body r"
    and "find_field B ''Content-Length'' (res_fields (payload B r)) = Some (to_string (length (res_body r)))"
  using assms by (simp_all add: beast_laws_def payload_laws_def)

lemma payload_other_field:
  "beast_laws B \<Longrightarrow> \<not> same_name ''Content-Length'' n \<Longrightarrow> \<not> same_name ''Transfer-Encoding'' n \<Longrightarrow>
     find_field B n (res_fields (payload B r)) = find_field B n (res_fields r)"
  by (simp add: beast_laws_def payload_laws_def)

lemma payload_req_simps:
  assumes "beast_laws B"
  shows "req_method (payload_req B r) = req_method r"
    and "req_target (payload_req B r) = req_target r"
    and "req_version (payload_req B r) = req_version r"
    and "req_body (payload_req B r) = req_body r"
  using assms by (simp_all add: beast_laws_def payload_laws_def)

lemma payload_req_other_field:
  "beast_laws B \<Longrightarrow> \<not> same_name ''Content-Length'' n \<Longrightarrow> \<not> same_name ''Transfer-Encoding'' n \<Longrightarrow>
     find_field B n (req_fields (payload_req B r)) = find_field B n (req_fields r)"
  by (simp add: beast_laws_def payload_laws_def)

lemma keep_alive_needs_no_eof:
  "beast_laws B \<Longrightarrow> res_version r = 11 \<Longrightarrow> find_field B ''Content-Length'' (res_fields r) \<noteq> None \<Longrightarrow>
     find_field B ''Connection'' (res_fields r) = Some ''keep-alive'' \<Longrightarrow> \<not> need_eof B r"
  by (simp add: beast_laws_def eof_laws_def)

text \<open>The field names of the sources are told apart by their lengths.\<close>

lemma same_name_length: "same_name n m \<Longrightarrow> length n = length m"
  by (auto simp: same_name_def dest: map_eq_imp_length_eq)

lemma same_name_field_names [simp]:
  "\<not> same_name ''Content-Length'' ''Connection''" "\<not> same_name ''Transfer-Encoding'' ''Connection''"
  "\<not> same_name ''Content-Length'' ''Server''" "\<not> same_name ''Transfer-Encoding'' ''Server''"
  "\<not> same_name ''Content-Length'' ''Content-Type''" "\<not> same_name ''Transfer-Encoding'' ''Content-Type''"
  "\<not> same_name ''Content-Length'' ''Location''" "\<not> same_name ''Transfer-Encoding'' ''Location''"
  "\<not> same_name ''Content-Length'' ''Host''" "\<not> same_name ''Transfer-Encoding'' ''Host''"
  "\<not> same_name ''Content-Length'' ''Accept-Encoding''" "\<not> same_name ''Transfer-Encoding'' ''Accept-Encoding''"
  "\<not> same_name ''Content-Length'' ''Content-Encoding''" "\<not> same_name ''Transfer-Encoding'' ''Content-Encoding''"
  "\<not> same_name ''Connection'' ''Content-Length''" "\<not> same_name ''Connection'' ''Server''"
  "\<not> same_name ''Connection'' ''Content-Type''" "\<not> same_name ''Server'' ''Connection''"
  "\<not> same_name ''Content-Type'' ''Connection''" "\<not> same_name ''Content-Encoding'' ''Content-Length''"
  "\<not> same_name ''Accept-Encoding'' ''Host''" "\<not> same_name ''Host'' ''Accept-Encoding''"
  "\<not> same_name ''Server'' ''Content-Type''" "\<not> same_name ''Content-Type'' ''Server''"
  "\<not> same_name ''Location'' ''Content-Length''" "\<not> same_name ''Connection'' ''Location''"
  "\<not> same_name ''Connection'' ''Content-Encoding''"
  by (auto dest: same_name_length)

section \<open>RequestHandler: messages as text\<close>

definition to_string_response :: "beast \<Rightarrow> http_response \<Rightarrow> string" where
  "to_string_response B res = write_response B res"

definition to_string_request :: "beast \<Rightarrow> http_request \<Rightarrow> string" where
  "to_string_request B req = write_request B req"

section \<open>RequestHandler: the fixed error responses\<close>

text \<open>
  The three static functions set the same fields in the same order and differ in status and
  body. \<open>prepare_payload\<close> does not throw for these statuses.
\<close>

definition plain_error :: "beast \<Rightarrow> nat \<Rightarrow> string \<Rightarrow> http_response" where
  "plain_error B status text =
     payload B (empty_response\<lparr>res_version := 11, res_result := status, res_body := text,
       res_fields := set_field B ''Connection'' ''close''
         (set_field B ''Content-Type'' ''text/plain''
           (set_field B ''Server'' ''koko.cs130.org'' []))\<rparr>)"

definition bad_request :: "beast \<Rightarrow> http_response" where
  "bad_request B = plain_error B 400 (''Request was malformed.'' @ [ch_lf])"

definition not_found_error :: "beast \<Rightarrow> http_response" where
  "not_found_error B = plain_error B 404 (''The requested resource was not found.'' @ [ch_lf])"

definition internal_server_error :: "beast \<Rightarrow> http_response" where
  "internal_server_error B = plain_error B 500
     (''An internal error occurred on the server. Utsav will be fired promptly.'' @ [ch_lf])"

text \<open>The response every handler of fixed content starts from: status 200 and two fields.\<close>

definition ok_response :: "beast \<Rightarrow> string \<Rightarrow> string \<Rightarrow> http_response" where
  "ok_response B mime text =
     payload B (empty_response\<lparr>res_version := 11, res_result := 200, res_body := text,
       res_fields := set_field B ''Server'' ''koko.cs130.org'' (set_field B ''Content-Type'' mime [])\<rparr>)"

text \<open>
  A response that is complete on the wire: HTTP/1.1 and a \<open>Content-Length\<close> that is the length
  of its body.
\<close>

definition framed :: "beast \<Rightarrow> http_response \<Rightarrow> bool" where
  "framed B r \<longleftrightarrow> res_version r = 11 \<and>
     find_field B ''Content-Length'' (res_fields r) = Some (to_string (length (res_body r)))"

lemma plain_error_sel:
  assumes "beast_laws B"
  shows "res_result (plain_error B status text) = status"
    and "res_body (plain_error B status text) = text"
    and "find_field B ''Connection'' (res_fields (plain_error B status text)) = Some ''close''"
    and "find_field B ''Content-Type'' (res_fields (plain_error B status text)) = Some ''text/plain''"
    and "framed B (plain_error B status text)"
  using assms
  by (simp_all add: plain_error_def payload_simps payload_other_field find_set field_nil framed_def)

lemma ok_response_sel:
  assumes "beast_laws B"
  shows "res_result (ok_response B mime text) = 200"
    and "res_body (ok_response B mime text) = text"
    and "find_field B ''Connection'' (res_fields (ok_response B mime text)) = None"
    and "find_field B ''Content-Type'' (res_fields (ok_response B mime text)) = Some mime"
    and "framed B (ok_response B mime text)"
  using assms
  by (simp_all add: ok_response_def payload_simps payload_other_field find_set field_nil
      empty_response_def framed_def)

lemma error_responses_result:
  assumes "beast_laws B"
  shows "res_result (bad_request B) = 400" and "res_result (not_found_error B) = 404"
    and "res_result (internal_server_error B) = 500"
    and "framed B (bad_request B)" and "framed B (not_found_error B)"
    and "framed B (internal_server_error B)"
  using plain_error_sel [OF assms]
  by (simp_all add: bad_request_def not_found_error_def internal_server_error_def)

section \<open>Properties\<close>

text \<open>
  The three fixed error responses have their status, are plain text, announce that the
  connection is closed, and carry a \<open>Content-Length\<close> that is the length of their body.
\<close>

lemma error_responses:
  assumes "beast_laws B" and "(r, status) \<in> {(bad_request B, 400), (not_found_error B, 404), (internal_server_error B, 500)}"
  shows "res_result r = status \<and> framed B r \<and>
    find_field B ''Connection'' (res_fields r) = Some ''close'' \<and>
    find_field B ''Content-Type'' (res_fields r) = Some ''text/plain''"
  using assms
  by (auto simp: bad_request_def not_found_error_def internal_server_error_def plain_error_sel)

lemma error_responses_witness:
  "res_result (bad_request ref_beast) = 400 \<and> framed ref_beast (bad_request ref_beast) \<and>
     find_field ref_beast ''Connection'' (res_fields (bad_request ref_beast)) = Some ''close'' \<and>
     find_field ref_beast ''Content-Type'' (res_fields (bad_request ref_beast)) = Some ''text/plain''"
  using error_responses [OF ref_beast_laws, of "bad_request ref_beast" 400] by simp

end
