(* ===== verification/Logger.thy ===== *)
theory Logger
  imports Prelude
begin

text \<open>
  The set-up of the logger (\<open>src/logger.cc\<close>, \<open>include/logger.h\<close>): the sinks \<open>init_logger\<close> registers with
  the core of Boost.Log, and the macros that make a record of a message. How a record is rendered
  by a format string is Boost's, the parameter \<open>render\<close>. No filter is ever set, so that the core
  hands every record to every sink.
\<close>

section \<open>Records\<close>

datatype severity_level = sev_trace | sev_debug | sev_info | sev_warning | sev_error | sev_fatal

type_synonym log_message = "severity_level \<times> string"

definition FATAL :: "string \<Rightarrow> log_message" where
  "FATAL m = (sev_fatal, m)"

definition ERROR :: "string \<Rightarrow> log_message" where
  "ERROR m = (sev_error, m)"

definition WARNING :: "string \<Rightarrow> log_message" where
  "WARNING m = (sev_warning, m)"

definition INFO :: "string \<Rightarrow> log_message" where
  "INFO m = (sev_info, m)"

definition TRACE :: "string \<Rightarrow> log_message" where
  "TRACE m = (sev_trace, m)"

section \<open>Sinks\<close>

record file_sink =
  log_file_name :: string
  rotation_size :: nat
  rotation_at_time_point :: "nat \<times> nat \<times> nat"
  file_format :: string
  append_mode :: bool
  auto_flush :: bool

datatype sink = FileSink file_sink | ConsoleSink string

fun sink_format :: "sink \<Rightarrow> string" where
  "sink_format (FileSink k) = file_format k"
| "sink_format (ConsoleSink f) = f"

text \<open>The core: the attributes with a formatter of their own, the sinks, the common attributes.\<close>

record log_core =
  simple_formatters :: "string list"
  sinks :: "sink list"
  common_attributes :: bool

definition new_log_core :: log_core where
  "new_log_core = \<lparr>simple_formatters = [], sinks = [], common_attributes = False\<rparr>"

definition server_log_file :: file_sink where
  "server_log_file =
     \<lparr>log_file_name = ''./logs/SERVER_LOG_%Y-%m-%d_%N.log'', rotation_size = 10 * 1024 * 1024,
      rotation_at_time_point = (0, 0, 0),
      file_format = ''[%TimeStamp%] [%ThreadID%] [%ProcessID%] (%Severity%) : %Message%'',
      append_mode = True, auto_flush = True\<rparr>"

definition init_logger :: "log_core \<Rightarrow> log_core" where
  "init_logger core =
     (let core = core\<lparr>simple_formatters := simple_formatters core @ [''Severity'']\<rparr>;
          core = core\<lparr>sinks := sinks core @ [FileSink server_log_file]\<rparr>;
          core = core\<lparr>sinks := sinks core @ [ConsoleSink ''=> %Message%'']\<rparr>
      in core\<lparr>common_attributes := True\<rparr>)"

text \<open>What each sink gets to see of a record.\<close>

definition log_record :: "(string \<Rightarrow> log_message \<Rightarrow> string) \<Rightarrow> log_core \<Rightarrow> log_message \<Rightarrow> (sink \<times> string) list" where
  "log_record render core m = map (\<lambda>k. (k, render (sink_format k) m)) (sinks core)"

section \<open>Where messages go\<close>

text \<open>
  Setting the logger up adds one line in the log file and one on the console to every message,
  whatever its severity; set up twice it writes everything twice.
\<close>

lemma init_logger_adds:
  "log_record render (init_logger core) m = log_record render core m @
     [(FileSink server_log_file, render (file_format server_log_file) m),
      (ConsoleSink ''=> %Message%'', render ''=> %Message%'' m)]"
  by (simp add: log_record_def init_logger_def Let_def)

lemma logged_once:
  "map snd (log_record render (init_logger new_log_core) m) =
     [render (file_format server_log_file) m, render ''=> %Message%'' m]"
  by (simp add: init_logger_adds) (simp add: log_record_def new_log_core_def)

end
