(* ===== verification/Handler.thy ===== *)
theory Handler
  imports Http Logger
begin

text \<open>
  The state every handler has (\<open>include/handler.h\<close>), the static state of the server they share,
  and the handlers of fixed content: echo, sleeping echo, health, not found and status
  (\<open>src/echoHandler.cc\<close>, \<open>src/sleepEchoHandler.cc\<close>, \<open>src/healthHandler.cc\<close>,
  \<open>src/notFoundHandler.cc\<close>, \<open>src/statusHandler.cc\<close>). Inheritance is record extension.
\<close>

section \<open>The base class\<close>

record base_handler =
  handler_name :: string
  keep_alive :: bool

text \<open>A point in time is the text it prints as.\<close>

record url_info =
  url :: string
  res_code :: nat
  req_time :: string

text \<open>
  The state of the whole process: \<open>RequestHandler::url_info\<close>, \<open>server::urlToHandlerName\<close>, the
  signal handlers, each as the status it ends the process with, and the core of the logger.
\<close>

record globals =
  url_infos :: "url_info list"
  urlToHandlerName :: "(string \<times> string) list"
  sig_actions :: "int \<Rightarrow> (int \<Rightarrow> int) option"
  core :: log_core

definition new_globals :: globals where
  "new_globals = \<lparr>url_infos = [], urlToHandlerName = [], sig_actions = (\<lambda>s. None), core = new_log_core\<rparr>"

lemma new_globals_core [simp]: "core new_globals = new_log_core"
  by (simp add: new_globals_def)

definition set_keep_alive_from_config ::
  "nginx_config \<Rightarrow> 'a base_handler_scheme \<Rightarrow> 'a base_handler_scheme res" where
  "set_keep_alive_from_config conf h =
     rbind (get_num conf ''keep-alive'') (\<lambda>n. Inr (h\<lparr>keep_alive := (n \<noteq> 0)\<rparr>))"

definition get_name :: "'a base_handler_scheme \<Rightarrow> string" where
  "get_name h = handler_name h"

text \<open>Recording a request and the status it was answered with.\<close>

definition record_url :: "string \<Rightarrow> http_request \<Rightarrow> http_response \<Rightarrow> globals \<Rightarrow> globals" where
  "record_url time request response g =
     g\<lparr>url_infos := url_infos g @
        [\<lparr>url = req_target request, res_code = res_result response, req_time = time\<rparr>]\<rparr>"

section \<open>Handlers of fixed content\<close>

record echo_handler = base_handler +
  echo_prefix :: string

definition EchoHandler :: "string \<Rightarrow> nginx_config \<Rightarrow> echo_handler res" where
  "EchoHandler p config =
     set_keep_alive_from_config config \<lparr>handler_name = ''Echo'', keep_alive = False, echo_prefix = p\<rparr>"

definition Echo_handle_request :: "beast \<Rightarrow> http_request \<Rightarrow> http_response" where
  "Echo_handle_request B request = ok_response B ''text/plain'' (to_string_request B request)"

definition get_url_prefix :: "'a echo_handler_scheme \<Rightarrow> string" where
  "get_url_prefix h = echo_prefix h"

definition SleepEchoHandler :: "string \<Rightarrow> nginx_config \<Rightarrow> echo_handler res" where
  "SleepEchoHandler p config =
     rbind (EchoHandler p config) (\<lambda>h. Inr (h\<lparr>handler_name := ''SleepEcho''\<rparr>))"

text \<open>The three seconds of sleep change no state.\<close>

definition SleepEcho_handle_request :: "beast \<Rightarrow> http_request \<Rightarrow> http_response" where
  "SleepEcho_handle_request B request = Echo_handle_request B request"

definition HealthHandler :: "string \<Rightarrow> nginx_config \<Rightarrow> base_handler" where
  "HealthHandler url_prefix config = \<lparr>handler_name = ''Health'', keep_alive = False\<rparr>"

definition Health_handle_request :: "beast \<Rightarrow> http_request \<Rightarrow> http_response" where
  "Health_handle_request B request = ok_response B ''text/plain'' ''OK''"

definition NotFoundHandler :: "string \<Rightarrow> nginx_config \<Rightarrow> base_handler" where
  "NotFoundHandler p config = \<lparr>handler_name = ''NotFound'', keep_alive = False\<rparr>"

definition NotFound_handle_request :: "beast \<Rightarrow> http_request \<Rightarrow> http_response" where
  "NotFound_handle_request B request = not_found_error B"

section \<open>The status page\<close>

definition StatusHandler :: "string \<Rightarrow> nginx_config \<Rightarrow> base_handler" where
  "StatusHandler url_prefix config = \<lparr>handler_name = ''Status'', keep_alive = False\<rparr>"

definition status_row :: "url_info \<Rightarrow> string" where
  "status_row i = ''<tr>'' @ ''<td>'' @ url i @ ''</td>'' @ ''<td>'' @ to_string (res_code i) @ ''</td>'' @
     ''<td>'' @ req_time i @ ''</td>'' @ ''</tr>''"

text \<open>The loop from the last entry to the first.\<close>

fun url_info_rows :: "url_info list \<Rightarrow> nat \<Rightarrow> string" where
  "url_info_rows infos 0 = []"
| "url_info_rows infos (Suc i) = status_row (infos ! i) @ url_info_rows infos i"

fun handler_rows :: "(string \<times> string) list \<Rightarrow> string" where
  "handler_rows [] = []"
| "handler_rows ((p, h) # rs) =
     ''<tr><td>'' @ p @ ''</td><td>'' @ h @ ''</td></tr>'' @ handler_rows rs"

text \<open>The page up to the row of the request being answered, and the text between the tables.\<close>

definition status_head :: "string \<Rightarrow> string \<Rightarrow> nat \<Rightarrow> string" where
  "status_head time target n =
     ''<html>'' @ ''<head>'' @
     ''<style>table{width = '' @ [ch_dquote] @ ''500'' @ [ch_dquote] @
     '';}td{width = '' @ [ch_dquote] @ ''400'' @ [ch_dquote] @ '';}</style>'' @
     ''<title>Koko Status Report</title>'' @ ''</head>'' @ ''<body>'' @
     ''<h1>Koko Server Status Report</h1>'' @
     ''Members: Bryan Nguyen, Hyounjun Chang, Tanmaya Hada, Utsav Munendra<br>'' @
     ''<h3>Total Requests Received: '' @ to_string n @ ''</h3>'' @ ''</br>'' @
     ''<h3>Received Requests</h3>'' @ ''<table>'' @
     ''<tr><th>Location</th><th>Response Code</th><th>Time (LA)</th></tr>'' @
     ''<tr><td>'' @ target @ ''</td><td>200</td>'' @ ''<td>'' @ time @ ''</td>'' @ ''</tr>''"

definition status_middle :: string where
  "status_middle = ''</table>'' @ ''</br>'' @ ''<h2>Registered Handlers</h2>'' @ ''<table>'' @
     ''<tr><th>URL Prefix</th><th>Handler Type</th></tr>''"

text \<open>
  The handler copies the log when it begins and asks the shared log for its size when the tables are
  made: \<open>copy\<close> is the log as it was copied, \<open>g\<close> the globals at the second access.
\<close>

definition status_page :: "string \<Rightarrow> string \<Rightarrow> url_info list \<Rightarrow> globals \<Rightarrow> string" where
  "status_page time target copy g =
     status_head time target (length (url_infos g) + 1) @
     url_info_rows copy (length copy) @
     status_middle @ handler_rows (urlToHandlerName g) @ ''</table>'' @ ''</body>'' @ ''</html>''"

definition Status_handle_request ::
  "beast \<Rightarrow> string \<Rightarrow> url_info list \<Rightarrow> globals \<Rightarrow> http_request \<Rightarrow> http_response" where
  "Status_handle_request B time copy g request =
     ok_response B ''text/html'' (status_page time (req_target request) copy g)"

section \<open>Properties of the fixed handlers\<close>

lemma url_info_rows_rev:
  "n \<le> length infos \<Longrightarrow> url_info_rows infos n = concat (map status_row (rev (take n infos)))"
  by (induction n) (auto simp: take_Suc_conv_app_nth)

lemma handler_rows_concat:
  "handler_rows rs = concat (map (\<lambda>(p, h). ''<tr><td>'' @ p @ ''</td><td>'' @ h @ ''</td></tr>'') rs)"
  by (induction rs) auto

lemma keep_alive_of_config:
  "set_keep_alive_from_config conf h = Inr h' \<longleftrightarrow>
     (\<exists>n. get_num conf ''keep-alive'' = Inr n \<and> h' = h\<lparr>keep_alive := (n \<noteq> 0)\<rparr>)"
  by (auto simp: set_keep_alive_from_config_def rbind_eq_Inr_iff)

section \<open>Properties\<close>

text \<open>
  C39: The status page counts the requests recorded when it is put together and itself, lists the
  requests recorded when the handler began from the newest to the oldest, each with its status and
  time, and then every registered handler.
\<close>

theorem status_lists:
  assumes "beast_laws B"
  shows "res_body (Status_handle_request B time copy g request) =
    status_head time (req_target request) (Suc (length (url_infos g))) @
    concat (map status_row (rev copy)) @ status_middle @
    concat (map (\<lambda>(p, h). ''<tr><td>'' @ p @ ''</td><td>'' @ h @ ''</td></tr>'') (urlToHandlerName g)) @
    ''</table></body></html>''"
  using assms url_info_rows_rev [of "length copy" copy]
  by (simp add: Status_handle_request_def ok_response_sel status_page_def handler_rows_concat)

theorem status_lists_witness:
  "res_body (Status_handle_request ref_beast ''t''
      [\<lparr>url = ''/a'', res_code = 200, req_time = ''t1''\<rparr>]
      \<lparr>url_infos = [\<lparr>url = ''/a'', res_code = 200, req_time = ''t1''\<rparr>, \<lparr>url = ''/b'', res_code = 404, req_time = ''t2''\<rparr>],
       urlToHandlerName = [], sig_actions = (\<lambda>s. None), core = new_log_core\<rparr> empty_request) =
   status_head ''t'' [] 3 @ status_row \<lparr>url = ''/a'', res_code = 200, req_time = ''t1''\<rparr> @ status_middle @ ''</table></body></html>''"
  using status_lists [OF ref_beast_laws, of "''t''" "[\<lparr>url = ''/a'', res_code = 200, req_time = ''t1''\<rparr>]"
      "\<lparr>url_infos = [\<lparr>url = ''/a'', res_code = 200, req_time = ''t1''\<rparr>, \<lparr>url = ''/b'', res_code = 404, req_time = ''t2''\<rparr>],
       urlToHandlerName = [], sig_actions = (\<lambda>s. None), core = new_log_core\<rparr>" empty_request]
  by (simp add: empty_request_def numeral_3_eq_3)

end
