(* ===== verification/File_Handler.thy ===== *)
theory File_Handler
  imports Handler
begin

text \<open>
  The static file handler and its compressing subclass (\<open>src/fileHandler.cc\<close>,
  \<open>src/compressedFileHandler.cc\<close>). The file system is the parameter \<open>file_system\<close>:
  \<open>boost::filesystem::exists\<close> and \<open>is_directory\<close>, which throw when the status of a path cannot be
  determined, \<open>path / path\<close>, and the content an \<open>ifstream\<close> reads, \<open>None\<close> for a file it cannot
  open. \<open>gzip_compressor\<close> stands for that of Boost.Iostreams: what comes out of it at a level of
  compression.
\<close>

record file_system =
  fs_exists :: "string \<Rightarrow> bool res"
  fs_is_directory :: "string \<Rightarrow> bool res"
  fs_append :: "string \<Rightarrow> string \<Rightarrow> string"
  fs_read :: "string \<Rightarrow> string option"

section \<open>FileHandler\<close>

record file_handler = base_handler +
  files_prefix :: string
  linux_dir :: string
  invalid_config :: bool

text \<open>\<open>if (s.size() > 0 && s[s.size() - 1] == '/') s.erase(s.size() - 1)\<close>\<close>

definition drop_trailing_slash :: "string \<Rightarrow> string" where
  "drop_trailing_slash s =
     (if length s > 0 \<and> s ! (length s - 1) = ch_slash then take (length s - 1) s else s)"

text \<open>\<open>config.statements_.at(0)->tokens_.at(1)\<close>\<close>

definition file_root :: "nginx_config \<Rightarrow> string res" where
  "file_root config =
     (case statements config of
        [] \<Rightarrow> Inl OutOfRange
      | st # _ \<Rightarrow> if length (tokens st) > 1 then Inr (tokens st ! 1) else Inl OutOfRange)"

definition FileHandler :: "string \<Rightarrow> nginx_config \<Rightarrow> file_handler res" where
  "FileHandler p config =
     (let h = \<lparr>handler_name = ''File'', keep_alive = False, files_prefix = drop_trailing_slash p,
               linux_dir = [], invalid_config = False\<rparr>;
          h = (case file_root config of
                 Inr dir \<Rightarrow> h\<lparr>linux_dir := dir, invalid_config := False\<rparr>
               | Inl e \<Rightarrow> h\<lparr>invalid_config := True\<rparr>)
      in set_keep_alive_from_config config h)"

definition getExtension :: "string \<Rightarrow> string" where
  "getExtension filename =
     (case str_rfind filename ch_dot of None \<Rightarrow> [] | Some pos \<Rightarrow> drop pos filename)"

definition get_mime :: "string \<Rightarrow> string" where
  "get_mime target =
     (let extension = getExtension target in
      if extension = ''.htm'' then ''text/html''
      else if extension = ''.html'' then ''text/html''
      else if extension = ''.php'' then ''text/html''
      else if extension = ''.css'' then ''text/css''
      else if extension = ''.txt'' then ''text/plain''
      else if extension = ''.js'' then ''application/javascript''
      else if extension = ''.json'' then ''application/json''
      else if extension = ''.xml'' then ''application/xml''
      else if extension = ''.swf'' then ''application/x-shockwave-flash''
      else if extension = ''.flv'' then ''video/x-flv''
      else if extension = ''.png'' then ''image/png''
      else if extension = ''.jpe'' then ''image/jpeg''
      else if extension = ''.jpeg'' then ''image/jpeg''
      else if extension = ''.jpg'' then ''image/jpeg''
      else if extension = ''.gif'' then ''image/gif''
      else if extension = ''.bmp'' then ''image/bmp''
      else if extension = ''.ico'' then ''image/vnd.microsoft.icon''
      else if extension = ''.tiff'' then ''image/tiff''
      else if extension = ''.tif'' then ''image/tiff''
      else if extension = ''.svg'' then ''image/svg+xml''
      else if extension = ''.svgz'' then ''image/svg+xml''
      else if extension = ''.zip'' then ''application/zip''
      else ''text/plain'')"

text \<open>
  Reading the file found: with a file that does not open \<open>tellg\<close> is \<open>-1\<close>, and \<open>reserve\<close> of the
  largest \<open>size_t\<close> throws \<open>std::length_error\<close>.
\<close>

definition send_file :: "beast \<Rightarrow> file_system \<Rightarrow> string \<Rightarrow> http_response res" where
  "send_file B fs linux_path =
     (case fs_read fs linux_path of
        None \<Rightarrow> Inl LengthError
      | Some filebody \<Rightarrow> Inr (ok_response B (get_mime linux_path) filebody))"

definition File_handle_request ::
  "beast \<Rightarrow> file_system \<Rightarrow> 'a file_handler_scheme \<Rightarrow> http_request \<Rightarrow> http_response res" where
  "File_handle_request B fs h request =
     (if invalid_config h then Inr (internal_server_error B)
      else
        (let target = drop_trailing_slash (req_target request) in
         rbind (fs_exists fs (linux_dir h)) (\<lambda>present.
           if \<not> present then Inr (not_found_error B)
           else
             rbind (fs_is_directory fs (linux_dir h)) (\<lambda>directory.
               if \<not> directory then send_file B fs (linux_dir h)
               else
                 rbind (str_substr target (length (files_prefix h))) (\<lambda>filepath.
                   let linux_path = fs_append fs (linux_dir h) filepath in
                   rbind (fs_exists fs linux_path) (\<lambda>found.
                     if \<not> found then Inr (not_found_error B)
                     else
                       rbind (fs_is_directory fs linux_path) (\<lambda>is_dir.
                         if is_dir then Inr (not_found_error B)
                         else send_file B fs linux_path)))))))"

definition get_linux_dir :: "'a file_handler_scheme \<Rightarrow> string" where
  "get_linux_dir h = linux_dir h"

section \<open>CompressedFileHandler\<close>

definition CompressedFileHandler :: "string \<Rightarrow> nginx_config \<Rightarrow> file_handler res" where
  "CompressedFileHandler p config =
     rbind (FileHandler p config) (\<lambda>h. Inr (h\<lparr>handler_name := ''CompressedFileHandler''\<rparr>))"

definition best_compression :: nat where
  "best_compression = 9"

definition compress :: "(nat \<Rightarrow> string \<Rightarrow> string) \<Rightarrow> string \<Rightarrow> string" where
  "compress gzip_compressor data = gzip_compressor best_compression data"

text \<open>The first field spelled \<open>Accept-Encoding\<close> decides.\<close>

fun accepts_gzip :: "fields \<Rightarrow> bool" where
  "accepts_gzip [] = False"
| "accepts_gzip ((n, v) # fs) =
     (if n = ''Accept-Encoding'' then str_find v ''gzip'' \<noteq> None else accepts_gzip fs)"

definition CompressedFile_handle_request ::
  "beast \<Rightarrow> file_system \<Rightarrow> (nat \<Rightarrow> string \<Rightarrow> string) \<Rightarrow> 'a file_handler_scheme \<Rightarrow> http_request \<Rightarrow> http_response res" where
  "CompressedFile_handle_request B fs gzip_compressor h request =
     rbind (File_handle_request B fs h request) (\<lambda>res.
       if \<not> accepts_gzip (req_fields request) then Inr res
       else
         (let compressedBody = compress gzip_compressor (res_body res) in
          Inr (res\<lparr>res_body := compressedBody,
                 res_fields := set_field B ''Content-Length'' (to_string (length compressedBody))
                   (set_field B ''Content-Encoding'' ''gzip'' (res_fields res))\<rparr>)))"

section \<open>What the file handler answers\<close>

lemma drop_trailing_slash_alt:
  "drop_trailing_slash s = (if s \<noteq> [] \<and> last s = ch_slash then butlast s else s)"
  by (auto simp: drop_trailing_slash_def last_conv_nth butlast_conv_take)

lemma getExtension_split:
  "ch_dot \<notin> set ext \<Longrightarrow> getExtension (stem @ ch_dot # ext) = ch_dot # ext"
proof -
  assume "ch_dot \<notin> set ext"
  then have "str_rfind (stem @ ch_dot # ext) ch_dot = Some (length stem)"
    by (simp add: str_rfind_Some_iff)
  then show ?thesis by (simp add: getExtension_def)
qed

text \<open>
  The file the handler looks for: the configured root if it is a plain file, the rest of the
  target below the root otherwise.
\<close>

definition requested_path :: "file_system \<Rightarrow> 'a file_handler_scheme \<Rightarrow> http_request \<Rightarrow> string" where
  "requested_path fs h request =
     (if fs_is_directory fs (linux_dir h) = Inr True
      then fs_append fs (linux_dir h)
        (drop (length (files_prefix h)) (drop_trailing_slash (req_target request)))
      else linux_dir h)"

text \<open>A file system whose status queries do not throw.\<close>

definition fs_answers :: "file_system \<Rightarrow> bool" where
  "fs_answers fs \<longleftrightarrow> (\<forall>p. succeeds (fs_exists fs p) \<and> succeeds (fs_is_directory fs p))"

lemma fs_answersE:
  assumes "fs_answers fs"
  obtains a b where "fs_exists fs p = Inr a" and "fs_is_directory fs p = Inr b"
  using assms unfolding fs_answers_def succeeds_iff by meson

lemma File_handle_request_framed:
  "beast_laws B \<Longrightarrow> File_handle_request B fs h request = Inr r \<Longrightarrow> framed B r"
  by (auto simp: File_handle_request_def send_file_def rbind_eq_Inr_iff Let_def
      ok_response_sel error_responses_result split: if_splits option.splits)

lemma File_handle_request_Inl_iff:
  assumes "fs_answers fs"
    and "length (files_prefix h) \<le> length (drop_trailing_slash (req_target request))"
  shows "File_handle_request B fs h request = Inl e \<longleftrightarrow> e = LengthError \<and> \<not> invalid_config h \<and>
    fs_exists fs (linux_dir h) = Inr True \<and>
    fs_exists fs (requested_path fs h request) = Inr True \<and>
    fs_is_directory fs (requested_path fs h request) = Inr False \<and>
    fs_read fs (requested_path fs h request) = None"
proof -
  obtain present directory where root: "fs_exists fs (linux_dir h) = Inr present"
      "fs_is_directory fs (linux_dir h) = Inr directory"
    using assms(1) by (rule fs_answersE)
  let ?path = "fs_append fs (linux_dir h)
    (drop (length (files_prefix h)) (drop_trailing_slash (req_target request)))"
  obtain found is_dir where path: "fs_exists fs ?path = Inr found" "fs_is_directory fs ?path = Inr is_dir"
    using assms(1) by (rule fs_answersE)
  show ?thesis
    using assms(2) root path
    by (auto simp: File_handle_request_def Let_def str_substr_def send_file_def requested_path_def
        split: if_splits option.splits)
qed

lemma file_found:
  assumes "\<not> invalid_config h"
    and "req_target request = files_prefix h @ path" and "path \<noteq> []" and "last path \<noteq> ch_slash"
    and "fs_exists fs (linux_dir h) = Inr True" and "fs_is_directory fs (linux_dir h) = Inr True"
    and "fs_exists fs (fs_append fs (linux_dir h) path) = Inr True"
    and "fs_is_directory fs (fs_append fs (linux_dir h) path) = Inr False"
    and "fs_read fs (fs_append fs (linux_dir h) path) = Some content"
  shows "File_handle_request B fs h request = Inr (ok_response B (get_mime (fs_append fs (linux_dir h) path)) content)"
proof -
  have "drop_trailing_slash (files_prefix h @ path) = files_prefix h @ path"
    using assms(3,4) by (simp add: drop_trailing_slash_alt)
  then show ?thesis
    using assms by (simp add: File_handle_request_def str_substr_def send_file_def Let_def)
qed

section \<open>Properties\<close>

text \<open>A small file system the properties are tried on: a directory with one file in it.\<close>

definition demo_fs :: file_system where
  "demo_fs = \<lparr>fs_exists = (\<lambda>p. Inr (p = ''/srv'' \<or> p = ''/srv/a.html'')), fs_is_directory = (\<lambda>p. Inr (p = ''/srv'')),
     fs_append = (@), fs_read = (\<lambda>p. if p = ''/srv/a.html'' then Some ''hi'' else None)\<rparr>"

definition demo_file_handler :: file_handler where
  "demo_file_handler = \<lparr>handler_name = ''File'', keep_alive = False, files_prefix = ''/static'',
     linux_dir = ''/srv'', invalid_config = False\<rparr>"

text \<open>
  With a directory as its root, the file handler answers a target consisting of its URL prefix
  and a path with the content of the file the operating system finds at that path below the root,
  with status 200, the MIME type of the file's extension and the right \<open>Content-Length\<close>. The path
  is used as the client sent it, \<open>..\<close> segments and query included.
\<close>

lemma file_serves:
  assumes "beast_laws B" and "\<not> invalid_config h"
    and "req_target request = files_prefix h @ path" and "path \<noteq> []" and "last path \<noteq> ch_slash"
    and "fs_exists fs (linux_dir h) = Inr True" and "fs_is_directory fs (linux_dir h) = Inr True"
    and "fs_exists fs (fs_append fs (linux_dir h) path) = Inr True"
    and "fs_is_directory fs (fs_append fs (linux_dir h) path) = Inr False"
    and "fs_read fs (fs_append fs (linux_dir h) path) = Some content"
  shows "\<exists>r. File_handle_request B fs h request = Inr r \<and> res_result r = 200 \<and> res_body r = content \<and>
    find_field B ''Content-Type'' (res_fields r) = Some (get_mime (fs_append fs (linux_dir h) path)) \<and>
    framed B r"
  using file_found [OF assms(2-10)] assms(1) by (simp add: ok_response_sel)

lemma file_serves_example:
  "\<exists>r. File_handle_request ref_beast demo_fs demo_file_handler (empty_request\<lparr>req_target := ''/static/a.html''\<rparr>) = Inr r \<and>
     res_result r = 200 \<and> res_body r = ''hi'' \<and>
     find_field ref_beast ''Content-Type'' (res_fields r) = Some ''text/html'' \<and> framed ref_beast r"
  using file_serves [OF ref_beast_laws, of demo_file_handler "empty_request\<lparr>req_target := ''/static/a.html''\<rparr>"
      "''/a.html''" demo_fs "''hi''"]
  by (simp add: demo_fs_def demo_file_handler_def get_mime_def getExtension_def Let_def)

text \<open>
  When the configured root does not exist, or is a directory in which the requested path does
  not exist or is a directory itself, the answer is the fixed 404 response.
\<close>

lemma file_missing:
  assumes "fs_answers fs" and "\<not> invalid_config h"
    and "length (files_prefix h) \<le> length (drop_trailing_slash (req_target request))"
    and "fs_exists fs (linux_dir h) = Inr False \<or>
      fs_is_directory fs (linux_dir h) = Inr True \<and>
        (fs_exists fs (requested_path fs h request) = Inr False \<or>
         fs_is_directory fs (requested_path fs h request) = Inr True)"
  shows "File_handle_request B fs h request = Inr (not_found_error B)"
proof -
  obtain present directory where root: "fs_exists fs (linux_dir h) = Inr present"
      "fs_is_directory fs (linux_dir h) = Inr directory"
    using assms(1) by (rule fs_answersE)
  obtain found is_dir where path: "fs_exists fs (requested_path fs h request) = Inr found"
      "fs_is_directory fs (requested_path fs h request) = Inr is_dir"
    using assms(1) by (rule fs_answersE)
  show ?thesis
    using assms(2-4) root path
    by (auto simp: File_handle_request_def str_substr_def requested_path_def Let_def)
qed

lemma file_missing_witness:
  "File_handle_request ref_beast demo_fs demo_file_handler (empty_request\<lparr>req_target := ''/static/b''\<rparr>) =
     Inr (not_found_error ref_beast)"
  by (rule file_missing)
    (simp_all add: demo_fs_def demo_file_handler_def fs_answers_def requested_path_def drop_trailing_slash_def)

text \<open>
  C34: With a file system whose status queries answer, and a target no shorter than the URL prefix,
  the file handler throws in one case only: the requested path exists, is no directory and cannot
  be read. The exception is the \<open>length_error\<close> of \<open>reserve\<close>.
\<close>

theorem file_throws:
  assumes "fs_answers fs" and "\<not> invalid_config h"
    and "length (files_prefix h) \<le> length (drop_trailing_slash (req_target request))"
  shows "File_handle_request B fs h request = Inl e \<longleftrightarrow> e = LengthError \<and>
    fs_exists fs (linux_dir h) = Inr True \<and>
    fs_exists fs (requested_path fs h request) = Inr True \<and>
    fs_is_directory fs (requested_path fs h request) = Inr False \<and>
    fs_read fs (requested_path fs h request) = None"
  using File_handle_request_Inl_iff [OF assms(1,3)] assms(2) by blast

theorem file_throws_witness:
  "File_handle_request ref_beast (demo_fs\<lparr>fs_read := (\<lambda>p. None)\<rparr>) demo_file_handler
     (empty_request\<lparr>req_target := ''/static/a.html''\<rparr>) = Inl LengthError"
  using file_throws [of "demo_fs\<lparr>fs_read := (\<lambda>p. None)\<rparr>" demo_file_handler
      "empty_request\<lparr>req_target := ''/static/a.html''\<rparr>" ref_beast LengthError]
  by (simp add: demo_fs_def demo_file_handler_def fs_answers_def requested_path_def drop_trailing_slash_def)

text \<open>What gzip promises: at every level its output decodes to its input.\<close>

definition gzip_laws :: "(nat \<Rightarrow> string \<Rightarrow> string) \<Rightarrow> (string \<Rightarrow> string) \<Rightarrow> bool" where
  "gzip_laws gzip_compressor gunzip \<longleftrightarrow> (\<forall>level data. gunzip (gzip_compressor level data) = data)"

text \<open>
  C35: The compressing handler answers like the file handler when the request does not ask for gzip;
  when it does, the response, an error response too, is marked as gzip and has the length of the
  compressed body, and a client that decodes it gets the body the file handler would have sent.
\<close>

theorem compressed_file:
  assumes "beast_laws B" and "File_handle_request B fs h request = Inr r"
    and "gzip_laws gzip_compressor gunzip"
  shows "\<exists>r'. CompressedFile_handle_request B fs gzip_compressor h request = Inr r' \<and> res_result r' = res_result r \<and>
    framed B r' \<and>
    (if accepts_gzip (req_fields request)
     then gunzip (res_body r') = res_body r \<and> find_field B ''Content-Encoding'' (res_fields r') = Some ''gzip''
     else r' = r)"
  using assms File_handle_request_framed [OF assms(1,2)]
  by (auto simp: CompressedFile_handle_request_def Let_def framed_def find_set gzip_laws_def compress_def)

theorem compressed_file_witness:
  "\<exists>r. File_handle_request ref_beast demo_fs demo_file_handler
       (empty_request\<lparr>req_target := ''/static/b'', req_fields := [(''Accept-Encoding'', ''gzip'')]\<rparr>) = Inr r \<and>
     (\<exists>r'. CompressedFile_handle_request ref_beast demo_fs (\<lambda>l. rev) demo_file_handler
       (empty_request\<lparr>req_target := ''/static/b'', req_fields := [(''Accept-Encoding'', ''gzip'')]\<rparr>) = Inr r' \<and>
       res_result r' = 404 \<and> rev (res_body r') = res_body r)"
proof -
  let ?req = "empty_request\<lparr>req_target := ''/static/b'', req_fields := [(''Accept-Encoding'', ''gzip'')]\<rparr>"
  have answer: "File_handle_request ref_beast demo_fs demo_file_handler ?req = Inr (not_found_error ref_beast)"
    by (simp add: File_handle_request_def demo_fs_def demo_file_handler_def drop_trailing_slash_def
        str_substr_def Let_def)
  have "gzip_laws (\<lambda>l. rev) rev" by (simp add: gzip_laws_def)
  from compressed_file [OF ref_beast_laws answer this] answer show ?thesis
    by (auto simp: error_responses_result [OF ref_beast_laws])
qed

end
