(* ===== verification/Proxy_Handler.thy ===== *)
theory Proxy_Handler
  imports File_Handler
begin

text \<open>
  The reverse proxy handler (\<open>src/proxyRequestHandler.cc\<close>). The connection to the other server
  is the parameter \<open>network\<close>, one component per call of \<open>req_synchronous\<close> with its error;
  \<open>boost::replace_all\<close> is the parameter \<open>replace_all\<close>, and \<open>replace_laws\<close> is what it is
  documented to do. Exceptions thrown inside the \<open>try\<close> block are values until the handler
  catches them. The calls of \<open>req_synchronous\<close> block without a timeout: that one of them never
  returns is the value \<open>NoReturn\<close>, which nothing catches. The data member \<open>max_redirects\<close> is never read or written and is left out.
\<close>

section \<open>Replacing all occurrences\<close>

text \<open>
  Nothing happens to a string in which the searched string does not occur; otherwise the
  first occurrence is replaced and the rest of the string is treated in the same way.
\<close>

definition replace_laws :: "(string \<Rightarrow> string \<Rightarrow> string \<Rightarrow> string) \<Rightarrow> bool" where
  "replace_laws R \<longleftrightarrow> (\<forall>s p r. p \<noteq> [] \<longrightarrow>
     R s p r = (case str_find s p of
                  None \<Rightarrow> s
                | Some i \<Rightarrow> take i s @ r @ R (drop (i + length p) s) p r))"

lemma str_find_shortens:
  assumes "str_find s p = Some i" and "p \<noteq> []"
  shows "length s - (i + length p) < length s"
proof -
  have "0 < length p" using assms(2) by simp
  moreover have "i + length p \<le> length s" using str_find_Some_split [OF assms(1)] by simp
  ultimately show ?thesis by linarith
qed

function ref_replace :: "string \<Rightarrow> string \<Rightarrow> string \<Rightarrow> string" where
  "ref_replace s p r =
     (case str_find s p of
        None \<Rightarrow> s
      | Some i \<Rightarrow> if p = [] then s else take i s @ r @ ref_replace (drop (i + length p) s) p r)"
  by pat_completeness auto
termination
  by (relation "measure (\<lambda>(s, p, r). length s)") (auto simp: str_find_shortens)

declare ref_replace.simps [simp del]

lemma ref_replace_laws: "replace_laws ref_replace"
  by (auto simp: replace_laws_def ref_replace.simps split: option.split)

lemma replace_absent:
  "replace_laws R \<Longrightarrow> p \<noteq> [] \<Longrightarrow> str_find s p = None \<Longrightarrow> R s p r = s"
  by (simp add: replace_laws_def)

section \<open>Data\<close>

datatype net_error = NotConnected | NetError string

text \<open>
  What becomes of a call of \<open>req_synchronous\<close> on the connection: it returns, it throws a
  \<open>system_error\<close>, or it waits for ever, as none of them has a timeout. The read sets an error code
  instead of throwing, and is \<open>None\<close> if the other server neither completes a response nor closes the
  connection.
\<close>

datatype net_call = Returns | Throws string | Waits

record network =
  net_resolve :: "string \<Rightarrow> string \<Rightarrow> net_call"
  net_connect :: "string \<Rightarrow> string \<Rightarrow> net_call"
  net_endpoint :: "string \<Rightarrow> string \<Rightarrow> net_call"
  net_write :: "http_request \<Rightarrow> net_call"
  net_read :: "http_request \<Rightarrow> http_response option"
  net_read_error :: "http_request \<Rightarrow> net_error option"
  net_shutdown :: "http_request \<Rightarrow> net_error option"

fun call_result :: "net_call \<Rightarrow> unit res" where
  "call_result Returns = Inr ()"
| "call_result (Throws m) = Inl (SystemError m)"
| "call_result Waits = Inl NoReturn"

record proxy_handler = base_handler +
  proxy_prefix :: string
  proxy_dest :: string
  m_port :: string
  proxy_invalid :: bool

text \<open>\<open>c_str\<close>, as \<open>strcmp\<close> sees it, ends at the first NUL.\<close>

definition c_str :: "string \<Rightarrow> string" where
  "c_str s = takeWhile (\<lambda>c. c \<noteq> CHR 0x00) s"

text \<open>
  The loop over the statements: the destination, the port, and whether \<open>at(0)\<close> or \<open>at(1)\<close>
  threw.
\<close>

fun proxy_fields :: "nginx_statement list \<Rightarrow> string \<Rightarrow> string \<Rightarrow> string \<times> string \<times> bool" where
  "proxy_fields [] dest port = (dest, port, False)"
| "proxy_fields (st # sts) dest port =
     (case tokens st of
        [] \<Rightarrow> (dest, port, True)
      | t # ts \<Rightarrow>
          if c_str t = ''dest'' then
            (case ts of [] \<Rightarrow> (dest, port, True) | v # _ \<Rightarrow> proxy_fields sts v port)
          else if c_str t = ''port'' then
            (case ts of [] \<Rightarrow> (dest, port, True) | v # _ \<Rightarrow> proxy_fields sts dest v)
          else proxy_fields sts dest port)"

definition ProxyRequestHandler :: "string \<Rightarrow> nginx_config \<Rightarrow> proxy_handler" where
  "ProxyRequestHandler p config =
     (let (dest, port, threw) = proxy_fields (statements config) [] [] in
      \<lparr>handler_name = ''ProxyRequest'', keep_alive = False, proxy_prefix = drop_trailing_slash p,
       proxy_dest = dest, m_port = port, proxy_invalid = (threw \<or> dest = [] \<or> port = [])\<rparr>)"

section \<open>One request to the other server\<close>

text \<open>
  The message about the connection asks for the remote endpoint, which fails if the other server has
  closed the connection by then. The error code of \<open>http::read\<close> is overwritten by that of \<open>shutdown\<close>
  before it is looked at.
\<close>

definition req_synchronous ::
  "beast \<Rightarrow> network \<Rightarrow> 'a proxy_handler_scheme \<Rightarrow> http_request \<Rightarrow> http_response res" where
  "req_synchronous B net h request =
     rbind (call_result (net_resolve net (proxy_dest h) (m_port h))) (\<lambda>_.
     rbind (call_result (net_connect net (proxy_dest h) (m_port h))) (\<lambda>_.
     rbind (call_result (net_endpoint net (proxy_dest h) (m_port h))) (\<lambda>_.
     rbind (call_result (net_write net request)) (\<lambda>_.
       case net_read net request of
         None \<Rightarrow> Inl NoReturn
       | Some res \<Rightarrow>
           (let ec = net_read_error net request;
                ec = net_shutdown net request
            in if ec \<noteq> None \<and> ec \<noteq> Some NotConnected then Inl (SystemError ''shutdown'')
               else if payload_throws B res then Inl (RuntimeError ''invalid response body'')
               else Inr (payload B res))))))"

section \<open>Links\<close>

definition hex_slash :: string where
  "hex_slash = ch_bslash # ''2f''"

definition attr_href :: string where "attr_href = ''href='' @ [ch_dquote]"
definition attr_src :: string where "attr_src = ''src='' @ [ch_dquote]"
definition attr_url :: string where "attr_url = ''url('' @ [ch_dquote]"

definition replace_relative_html_links ::
  "(string \<Rightarrow> string \<Rightarrow> string \<Rightarrow> string) \<Rightarrow> string \<Rightarrow> string \<Rightarrow> string" where
  "replace_relative_html_links R url_prefix body =
     (if url_prefix = [ch_slash] \<or> length url_prefix = 0 then body
      else
        (let encoded_prefix = R url_prefix [ch_slash] hex_slash;
             body = R body (attr_href @ [ch_slash]) (attr_href @ url_prefix @ [ch_slash]);
             body = R body (attr_src @ [ch_slash]) (attr_src @ url_prefix @ [ch_slash]);
             body = R body (attr_url @ [ch_slash]) (attr_url @ url_prefix @ [ch_slash]);
             body = R body (''url('' @ hex_slash) (''url('' @ encoded_prefix @ hex_slash);
             body = R body (attr_href @ url_prefix @ ''//'') (attr_href @ ''//'');
             body = R body (attr_src @ url_prefix @ ''//'') (attr_src @ ''//'');
             body = R body (attr_url @ url_prefix @ ''//'') (attr_url @ ''//'')
         in R body (''url('' @ encoded_prefix @ hex_slash @ hex_slash) (''url('' @ hex_slash @ hex_slash)))"

section \<open>handle_request\<close>

text \<open>The request that is sent on.\<close>

definition proxy_request :: "beast \<Rightarrow> 'a proxy_handler_scheme \<Rightarrow> http_request \<Rightarrow> http_request res" where
  "proxy_request B h request =
     (let proxy_req = request\<lparr>req_fields := set_field B ''Host'' (proxy_dest h) (req_fields request)\<rparr> in
      rbind (str_substr (req_target request) (length (proxy_prefix h))) (\<lambda>target.
        let target = (if length target = 0 then [ch_slash] else target);
            target = (if target ! 0 \<noteq> ch_slash then ch_slash # target else target);
            proxy_req = proxy_req\<lparr>req_target := target\<rparr>;
            proxy_req = proxy_req\<lparr>req_fields := set_field B ''Accept-Encoding'' ''identity'' (req_fields proxy_req)\<rparr>
        in if payload_req_throws B proxy_req then Inl (RuntimeError ''invalid request body'')
           else Inr (payload_req B proxy_req)))"

text \<open>What is made of the answer.\<close>

definition proxy_answer ::
  "beast \<Rightarrow> (string \<Rightarrow> string \<Rightarrow> string \<Rightarrow> string) \<Rightarrow> 'a proxy_handler_scheme \<Rightarrow> http_response \<Rightarrow> http_response" where
  "proxy_answer B R h res =
     (case (redirection B res, find_field B ''Location'' (res_fields res)) of
        (True, Some redirect_location) \<Rightarrow>
          (let redirect_location =
                 (if length redirect_location > 0 \<and> redirect_location ! 0 = ch_slash
                  then proxy_prefix h @ redirect_location else redirect_location)
           in res\<lparr>res_fields := set_field B ''Location'' redirect_location (res_fields res)\<rparr>)
      | _ \<Rightarrow>
          (case find_field B ''Content-Type'' (res_fields res) of
             Some mime \<Rightarrow>
               if str_find mime ''text/html'' \<noteq> None
               then res\<lparr>res_body := replace_relative_html_links R (proxy_prefix h) (res_body res)\<rparr>
               else res
           | None \<Rightarrow> res))"

definition Proxy_handle_request ::
  "beast \<Rightarrow> (string \<Rightarrow> string \<Rightarrow> string \<Rightarrow> string) \<Rightarrow> network \<Rightarrow> 'a proxy_handler_scheme \<Rightarrow>
     http_request \<Rightarrow> http_response res" where
  "Proxy_handle_request B R net h request =
     (if proxy_invalid h then Inr (internal_server_error B)
      else
        (case rbind (proxy_request B h request) (\<lambda>proxy_req.
                rbind (req_synchronous B net h proxy_req) (\<lambda>res. Inr (proxy_answer B R h res))) of
           Inl e \<Rightarrow> if is_exception e then Inr (internal_server_error B) else Inl e
         | Inr res \<Rightarrow> Inr res))"

section \<open>What the proxy sends and answers\<close>

text \<open>\<open>TRACE\<close> is the only method for which \<open>prepare_payload\<close> refuses a request.\<close>

definition trace_laws :: "beast \<Rightarrow> bool" where
  "trace_laws B \<longleftrightarrow> (\<forall>r. payload_req_throws B r \<longleftrightarrow> req_method r = ''TRACE'' \<and> req_body r \<noteq> [])"

lemma ref_beast_trace_laws: "trace_laws ref_beast"
  by (simp add: trace_laws_def ref_beast_def)

lemma proxy_request_spec:
  assumes "beast_laws B" and "trace_laws B"
    and "length (proxy_prefix h) \<le> length (req_target request)"
    and "req_method request \<noteq> ''TRACE'' \<or> req_body request = []"
  shows "\<exists>r. proxy_request B h request = Inr r \<and> req_method r = req_method request \<and>
    req_body r = req_body request \<and>
    find_field B ''Host'' (req_fields r) = Some (proxy_dest h) \<and>
    find_field B ''Accept-Encoding'' (req_fields r) = Some ''identity'' \<and>
    (let t = drop (length (proxy_prefix h)) (req_target request) in
     req_target r = (if t \<noteq> [] \<and> hd t = ch_slash then t else ch_slash # t))"
  using assms
  by (auto simp: proxy_request_def str_substr_def Let_def trace_laws_def payload_req_simps payload_req_other_field
      find_set hd_conv_nth)

lemma str_find_None_append: "str_find s p = None \<Longrightarrow> str_find s (p @ q) = None"
  by (induction s) (auto split: if_splits dest: append_prefixD)

section \<open>Properties\<close>

text \<open>Fixtures the properties are tried on.\<close>

definition demo_proxy :: proxy_handler where
  "demo_proxy = \<lparr>handler_name = ''ProxyRequest'', keep_alive = False, proxy_prefix = ''/uw'',
     proxy_dest = ''washington.edu'', m_port = ''80'', proxy_invalid = False\<rparr>"

definition demo_network :: network where
  "demo_network = \<lparr>net_resolve = (\<lambda>d p. Returns), net_connect = (\<lambda>d p. Throws ''Connection refused''),
     net_endpoint = (\<lambda>d p. Returns), net_write = (\<lambda>r. Returns), net_read = (\<lambda>r. Some empty_response), net_read_error = (\<lambda>r. None),
     net_shutdown = (\<lambda>r. None)\<rparr>"

text \<open>
  What the other server does with a request it is sent: it lets the handler wait for ever, or
  nothing fails on the way there and its answer, whatever the error of the read was, can be given a
  length.
\<close>

definition hangs :: "network \<Rightarrow> 'a proxy_handler_scheme \<Rightarrow> http_request \<Rightarrow> bool" where
  "hangs net h q \<longleftrightarrow>
     (case dropWhile (\<lambda>c. c = Returns) [net_resolve net (proxy_dest h) (m_port h),
        net_connect net (proxy_dest h) (m_port h), net_endpoint net (proxy_dest h) (m_port h), net_write net q] of
        [] \<Rightarrow> net_read net q = None
      | c # cs \<Rightarrow> c = Waits)"

definition answers :: "beast \<Rightarrow> network \<Rightarrow> 'a proxy_handler_scheme \<Rightarrow> http_request \<Rightarrow> bool" where
  "answers B net h q \<longleftrightarrow>
     net_resolve net (proxy_dest h) (m_port h) = Returns \<and> net_connect net (proxy_dest h) (m_port h) = Returns \<and>
     net_endpoint net (proxy_dest h) (m_port h) = Returns \<and> net_write net q = Returns \<and>
     net_shutdown net q \<in> {None, Some NotConnected} \<and>
     (\<exists>res. net_read net q = Some res \<and> \<not> payload_throws B res)"

lemma call_result_Returns [simp]: "call_result c = Inr u \<longleftrightarrow> c = Returns"
  by (cases c) simp_all

lemma req_synchronous_answers:
  "answers B net h q \<Longrightarrow> req_synchronous B net h q = Inr (payload B (the (net_read net q)))"
  by (auto simp: req_synchronous_def answers_def)

lemma call_result_other: "c \<noteq> Returns \<Longrightarrow> \<exists>e. call_result c = Inl e \<and> (if c = Waits then e = NoReturn else is_exception e)"
  by (cases c) simp_all

lemma req_synchronous_fails:
  assumes "\<not> answers B net h q"
  shows "\<exists>e. req_synchronous B net h q = Inl e \<and> (if hangs net h q then e = NoReturn else is_exception e)"
proof -
  let ?calls = "[net_resolve net (proxy_dest h) (m_port h), net_connect net (proxy_dest h) (m_port h),
    net_endpoint net (proxy_dest h) (m_port h), net_write net q]"
  show ?thesis
  proof (cases "dropWhile (\<lambda>c. c = Returns) ?calls")
    case Nil
    with assms show ?thesis
      by (auto simp: req_synchronous_def answers_def hangs_def Let_def split: option.split if_splits)
  next
    case (Cons c cs)
    then have "c \<noteq> Returns" using hd_dropWhile [of "\<lambda>c. c = Returns" ?calls] by simp
    from call_result_other [OF this] Cons show ?thesis
      by (auto simp: req_synchronous_def hangs_def split: if_splits)
  qed
qed

lemma hangs_not_answers: "hangs net h q \<Longrightarrow> \<not> answers B net h q"
  by (auto simp: hangs_def answers_def)

text \<open>Whatever fails inside the \<open>try\<close> block is caught; only a call that never returns is not.\<close>

lemma proxy_request_exception: "proxy_request B h request = Inl e \<Longrightarrow> is_exception e"
  by (auto simp: proxy_request_def rbind_eq_Inl_iff str_substr_def Let_def split: if_splits)

lemma proxy_never_throws:
  assumes "Proxy_handle_request B R net h request = Inl e"
  shows "e = NoReturn"
proof -
  have "e = NoReturn" if "req_synchronous B net h q = Inl e" "\<not> is_exception e" for q
    using that req_synchronous_answers [of B net h q] req_synchronous_fails [of B net h q]
    by (cases "answers B net h q") (auto split: if_splits)
  with assms show ?thesis
    by (auto simp: Proxy_handle_request_def rbind_eq_Inl_iff split: if_splits sum.splits dest: proxy_request_exception)
qed

text \<open>
  C36: What a configured proxy does with a request that is no \<open>TRACE\<close> with a body and whose target is
  at least as long as the URL prefix. It sends the request on with the same method and body, the
  \<open>Host\<close> of the other server, encoding \<open>identity\<close> only, and as its target the rest behind the prefix,
  which always begins with a slash; it passes on what was read, although the read may have failed;
  and whatever else fails on the way, a name that does not resolve, a connection, a write or the
  shutdown, ends in the internal server error, so that no exception leaves the handler. If the other
  server lets it wait for ever, in the first call that does not return, the handler never returns.
\<close>

theorem proxy_exchange:
  assumes "beast_laws B" and "trace_laws B" and "\<not> proxy_invalid h"
    and "length (proxy_prefix h) \<le> length (req_target request)"
    and "req_method request \<noteq> ''TRACE'' \<or> req_body request = []"
  shows "\<exists>q. req_method q = req_method request \<and> req_body q = req_body request \<and>
    find_field B ''Host'' (req_fields q) = Some (proxy_dest h) \<and>
    find_field B ''Accept-Encoding'' (req_fields q) = Some ''identity'' \<and>
    (let t = drop (length (proxy_prefix h)) (req_target request) in
     req_target q = (if t \<noteq> [] \<and> hd t = ch_slash then t else ch_slash # t)) \<and>
    Proxy_handle_request B R net h request =
      (if hangs net h q then Inl NoReturn
       else if answers B net h q then Inr (proxy_answer B R h (payload B (the (net_read net q))))
       else Inr (internal_server_error B))"
proof -
  obtain q where q: "proxy_request B h request = Inr q" and spec: "req_method q = req_method request \<and>
    req_body q = req_body request \<and> find_field B ''Host'' (req_fields q) = Some (proxy_dest h) \<and>
    find_field B ''Accept-Encoding'' (req_fields q) = Some ''identity'' \<and>
    (let t = drop (length (proxy_prefix h)) (req_target request) in
     req_target q = (if t \<noteq> [] \<and> hd t = ch_slash then t else ch_slash # t))"
    using proxy_request_spec [OF assms(1,2,4,5)] by auto
  have "Proxy_handle_request B R net h request =
      (if hangs net h q then Inl NoReturn
       else if answers B net h q then Inr (proxy_answer B R h (payload B (the (net_read net q))))
       else Inr (internal_server_error B))"
    using req_synchronous_answers [of B net h q] req_synchronous_fails [of B net h q] hangs_not_answers [of net h q B]
      assms(3)
    by (auto simp: Proxy_handle_request_def q split: if_splits)
  with spec show ?thesis by blast
qed

theorem proxy_exchange_witness:
  "Proxy_handle_request ref_beast ref_replace (demo_network\<lparr>net_connect := \<lambda>d p. Returns\<rparr>) demo_proxy
     (empty_request\<lparr>req_method := ''GET'', req_target := ''/uw/a''\<rparr>) =
   Inr (proxy_answer ref_beast ref_replace demo_proxy (payload ref_beast empty_response))"
proof -
  have "answers ref_beast (demo_network\<lparr>net_connect := \<lambda>d p. Returns\<rparr>) demo_proxy q" for q
    by (simp add: answers_def demo_network_def ref_beast_def empty_response_def)
  with proxy_exchange [OF ref_beast_laws ref_beast_trace_laws, of demo_proxy
      "empty_request\<lparr>req_method := ''GET'', req_target := ''/uw/a''\<rparr>" ref_replace
      "demo_network\<lparr>net_connect := \<lambda>d p. Returns\<rparr>"]
  show ?thesis by (auto simp: demo_proxy_def demo_network_def empty_request_def hangs_def)
qed

text \<open>
  A redirection of the other server keeps its status and body; a \<open>Location\<close> that begins with a
  slash gets the URL prefix of the proxy in front, any other one is left as it is.
\<close>

lemma proxy_redirect:
  assumes "beast_laws B" and "redirection B res" and "find_field B ''Location'' (res_fields res) = Some loc"
  shows "let r = proxy_answer B R h res in
    res_result r = res_result res \<and> res_body r = res_body res \<and>
    find_field B ''Location'' (res_fields r) =
      Some (if loc \<noteq> [] \<and> hd loc = ch_slash then proxy_prefix h @ loc else loc)"
  using assms by (auto simp: proxy_answer_def Let_def find_set hd_conv_nth)

lemma proxy_redirect_example:
  "find_field ref_beast ''Location'' (res_fields (proxy_answer ref_beast ref_replace demo_proxy
     (empty_response\<lparr>res_result := 301, res_fields := [(''Location'', ''/login'')]\<rparr>))) = Some ''/uw/login''"
  using proxy_redirect [OF ref_beast_laws, of "empty_response\<lparr>res_result := 301, res_fields := [(''Location'', ''/login'')]\<rparr>"
      "''/login''" ref_replace demo_proxy]
  by (simp add: ref_beast_def ref_find_def demo_proxy_def Let_def)

text \<open>
  C37: The \<open>Content-Length\<close> of what the proxy passes on from an HTTP/1.1 response with a
  \<open>Content-Type\<close> that is no redirection is the length of the body the other server
  sent, also where the links in an HTML body are rewritten: the response is complete on the wire
  only if the rewriting keeps the length.
\<close>

theorem proxy_length:
  assumes "beast_laws B" and "\<not> redirection B (payload B res)" and "res_version res = 11"
    and "find_field B ''Content-Type'' (res_fields res) = Some mime"
  shows "let r = proxy_answer B R h (payload B res) in
    find_field B ''Content-Length'' (res_fields r) = Some (to_string (length (res_body res))) \<and>
    res_body r = (if str_find mime ''text/html'' = None then res_body res
                  else replace_relative_html_links R (proxy_prefix h) (res_body res)) \<and>
    (framed B r \<longleftrightarrow> length (res_body r) = length (res_body res))"
proof -
  have inj: "to_string n = to_string m \<longleftrightarrow> n = m" for n m
    by (metis digits_val_to_string)
  show ?thesis
    using assms
    by (auto simp: proxy_answer_def Let_def payload_simps payload_other_field framed_def inj)
qed

theorem proxy_length_witness:
  "\<not> framed ref_beast (proxy_answer ref_beast ref_replace demo_proxy
     (payload ref_beast (empty_response\<lparr>res_fields := [(''Content-Type'', ''text/html'')],
        res_body := attr_href @ ''/x'' @ [ch_dquote]\<rparr>)))"
proof -
  let ?res = "empty_response\<lparr>res_fields := [(''Content-Type'', ''text/html'')], res_body := attr_href @ ''/x'' @ [ch_dquote]\<rparr>"
  have "\<not> redirection ref_beast (payload ref_beast ?res)" by (simp add: ref_beast_def empty_response_def)
  moreover have "find_field ref_beast ''Content-Type'' (res_fields ?res) = Some ''text/html''"
    by (simp add: ref_beast_def ref_find_def)
  moreover have "length (replace_relative_html_links ref_replace (proxy_prefix demo_proxy) (res_body ?res)) \<noteq>
      length (res_body ?res)"
    by code_simp
  ultimately show ?thesis
    using proxy_length [OF ref_beast_laws, of ?res "''text/html''" ref_replace demo_proxy]
    by (auto simp: Let_def empty_response_def)
qed

text \<open>
  A page in which no attribute value begins at the root of the server is passed on unchanged:
  none of the eight replacements touches it.
\<close>

lemma links_untouched:
  assumes "replace_laws R"
    and "str_find body (attr_href @ [ch_slash]) = None" and "str_find body (attr_src @ [ch_slash]) = None"
    and "str_find body (attr_url @ [ch_slash]) = None" and "str_find body (''url('' @ hex_slash) = None"
  shows "replace_relative_html_links R (ch_slash # u) body = body"
proof -
  have enc: "R (ch_slash # u) [ch_slash] hex_slash = hex_slash @ R u [ch_slash] hex_slash"
    using assms(1) by (simp add: replace_laws_def)
  have "attr_href \<noteq> []" "attr_src \<noteq> []" "attr_url \<noteq> []" "hex_slash \<noteq> []"
    by (simp_all add: attr_href_def attr_src_def attr_url_def hex_slash_def)
  moreover have "str_find body (attr_href @ (ch_slash # u) @ ''//'') = None"
    "str_find body (attr_src @ (ch_slash # u) @ ''//'') = None"
    "str_find body (attr_url @ (ch_slash # u) @ ''//'') = None"
    using str_find_None_append [OF assms(2), of "u @ ''//''"] str_find_None_append [OF assms(3), of "u @ ''//''"]
      str_find_None_append [OF assms(4), of "u @ ''//''"] by simp_all
  moreover have "str_find body (''url('' @ (hex_slash @ R u [ch_slash] hex_slash) @ hex_slash @ hex_slash) = None"
    using str_find_None_append [OF assms(5), of "R u [ch_slash] hex_slash @ hex_slash @ hex_slash"] by simp
  ultimately show ?thesis
    using assms unfolding replace_relative_html_links_def Let_def enc
    by (simp add: replace_absent)
qed

lemma links_untouched_witness:
  "replace_relative_html_links ref_replace ''/uw'' ''<a href=x>'' = ''<a href=x>''"
  using links_untouched [OF ref_replace_laws, of "''<a href=x>''" "''uw''"]
  by (simp add: attr_href_def attr_src_def attr_url_def hex_slash_def)

end
