(* ===== verification/Links.thy ===== *)
theory Links
  imports Proxy_Handler
begin

text \<open>
  What \<open>replace_relative_html_links\<close> (\<open>src/proxyRequestHandler.cc\<close>) does to a page. The eight
  replacements run over the whole page one after the other; the lemmas show that they work on each
  stretch of the page between two separating characters by itself, and what they do to a stretch
  that holds one attribute.
\<close>

section \<open>Replacement and separating characters\<close>

lemma prefix_stop: "c \<notin> set p \<Longrightarrow> prefix p (a @ c # b) \<longleftrightarrow> prefix p a"
proof (induction p arbitrary: a)
  case Nil
  then show ?case by simp
next
  case (Cons x p)
  then show ?case by (cases a) auto
qed

text \<open>A string that does not hold the separator is found on one side of it or not at all.\<close>

lemma str_find_at_separator:
  assumes "c \<notin> set p" and "p \<noteq> []"
  shows "str_find (a @ c # b) p =
    (case str_find a p of
       Some i \<Rightarrow> Some i
     | None \<Rightarrow> map_option (\<lambda>i. i + Suc (length a)) (str_find b p))"
proof (induction a)
  case Nil
  have "\<not> prefix p (c # b)" using prefix_stop [OF assms(1), of "[]"] assms(2) by simp
  with assms(2) show ?case by simp
next
  case (Cons x a)
  have "prefix p (x # a @ c # b) \<longleftrightarrow> prefix p (x # a)"
    using prefix_stop [OF assms(1), of "x # a"] by simp
  with Cons show ?case
    by (auto simp: option.map_comp comp_def split: option.splits)
qed

lemma replace_Some:
  "replace_laws R \<Longrightarrow> p \<noteq> [] \<Longrightarrow> str_find s p = Some i \<Longrightarrow>
     R s p r = take i s @ r @ R (drop (i + length p) s) p r"
  by (simp add: replace_laws_def)

lemma replace_at_separator:
  assumes "replace_laws R" and "c \<notin> set p" and "p \<noteq> []"
  shows "R (a @ c # b) p r = R a p r @ c # R b p r"
proof (induction a rule: length_induct)
  case (1 a)
  show ?case
  proof (cases "str_find a p")
    case None
    show ?thesis
    proof (cases "str_find b p")
      case None
      with \<open>str_find a p = None\<close> assms show ?thesis
        by (simp add: replace_absent str_find_at_separator)
    next
      case (Some i)
      then have "str_find (a @ c # b) p = Some (i + Suc (length a))"
        using \<open>str_find a p = None\<close> assms by (simp add: str_find_at_separator)
      from replace_Some [OF assms(1,3) this, of r] replace_Some [OF assms(1,3) Some, of r] None
      show ?thesis using assms by (simp add: replace_absent add.commute)
    qed
  next
    case (Some i)
    then have found: "str_find (a @ c # b) p = Some i" using assms by (simp add: str_find_at_separator)
    have len: "i + length p \<le> length a" using str_find_Some_split [OF Some] by simp
    have "length (drop (i + length p) a) < length a"
      using str_find_shortens [OF Some assms(3)] by simp
    then have "R (drop (i + length p) a @ c # b) p r = R (drop (i + length p) a) p r @ c # R b p r"
      using "1.IH" by blast
    with replace_Some [OF assms(1,3) found, of r] replace_Some [OF assms(1,3) Some, of r] len show ?thesis
      by simp
  qed
qed

lemma replace_set:
  assumes "replace_laws R" and "p \<noteq> []"
  shows "set (R s p r) \<subseteq> set s \<union> set r"
proof (induction s rule: length_induct)
  case (1 s)
  show ?case
  proof (cases "str_find s p")
    case None
    with assms show ?thesis by (simp add: replace_absent)
  next
    case (Some i)
    then have "length (drop (i + length p) s) < length s"
      using str_find_shortens [OF Some assms(2)] by simp
    then have "set (R (drop (i + length p) s) p r) \<subseteq> set (drop (i + length p) s) \<union> set r"
      using "1.IH" by blast
    with replace_Some [OF assms Some, of r] show ?thesis
      using set_take_subset [of i s] set_drop_subset [of "i + length p" s] by auto
  qed
qed

section \<open>The page, stretch by stretch\<close>

text \<open>The characters of the searched strings, apart from those of the URL prefix.\<close>

definition link_chars :: "char set" where
  "link_chars = set (attr_href @ attr_src @ attr_url @ hex_slash @ [ch_slash])"

lemma links_at_separator:
  assumes "replace_laws R" and "c \<notin> link_chars" and "c \<notin> set u"
  shows "replace_relative_html_links R u (a @ c # b) =
    replace_relative_html_links R u a @ c # replace_relative_html_links R u b"
proof -
  have "set (R u [ch_slash] hex_slash) \<subseteq> set u \<union> set hex_slash"
    using assms(1) by (rule replace_set) simp
  then have enc: "c \<notin> set (R u [ch_slash] hex_slash)"
    using assms(2,3) by (auto simp: link_chars_def)
  note sep = replace_at_separator [OF assms(1)]
  have "c \<notin> set attr_href" "c \<notin> set attr_src" "c \<notin> set attr_url" "c \<notin> set hex_slash" "c \<noteq> ch_slash"
    and "c \<notin> set ''url(''"
    using assms(2) by (auto simp: link_chars_def attr_url_def)
  moreover have "attr_href \<noteq> []" "attr_src \<noteq> []" "attr_url \<noteq> []"
    by (simp_all add: attr_href_def attr_src_def attr_url_def)
  ultimately show ?thesis
    using assms(3) enc by (simp add: replace_relative_html_links_def Let_def sep)
qed

section \<open>One attribute\<close>

text \<open>
  A value that begins with one slash gets the URL prefix in front; one that begins with two, which
  names another host, comes out as it was.
\<close>

definition rewritten_value :: "string \<Rightarrow> string \<Rightarrow> string" where
  "rewritten_value u x = (if x \<noteq> [] \<and> hd x = ch_slash then ch_slash # x else u @ ch_slash # x)"

text \<open>
  A double quote ends the value: a searched string that goes on behind one is not found in a text
  that has none but at its end.
\<close>

lemma str_find_quote:
  assumes "c \<notin> set (butlast t)" and "q \<noteq> []"
  shows "str_find t (p @ c # q) = None"
  using assms(1)
proof (induction t)
  case Nil
  then show ?case by simp
next
  case (Cons y t)
  have "c \<in> set (butlast z)" if "prefix (p @ c # q) z" for z
    using that assms(2) by (auto simp: prefix_def butlast_append)
  with Cons.prems have "\<not> prefix (p @ c # q) (y # t)" by blast
  moreover have "c \<notin> set (butlast t)" using Cons.prems by (cases "t = []") auto
  ultimately show ?case using Cons.IH by simp
qed

lemma str_find_attr:
  assumes "ch_dquote \<notin> set (butlast t)" and "q \<noteq> []"
  shows "str_find (attr_href @ t) (attr_src @ q) = None" and "str_find (attr_src @ t) (attr_href @ q) = None"
    and "str_find (attr_href @ t) (attr_href @ q) = (if prefix q t then Some 0 else None)"
    and "str_find (attr_src @ t) (attr_src @ q) = (if prefix q t then Some 0 else None)"
    and "str_find t (attr_href @ q) = None" and "str_find t (attr_src @ q) = None"
proof -
  show none: "str_find t (attr_href @ q) = None" "str_find t (attr_src @ q) = None"
    using str_find_quote [OF assms, of "''href=''"] str_find_quote [OF assms, of "''src=''"]
    by (simp_all add: attr_href_def attr_src_def)
  show "str_find (attr_href @ t) (attr_src @ q) = None" "str_find (attr_src @ t) (attr_href @ q) = None"
    "str_find (attr_href @ t) (attr_href @ q) = (if prefix q t then Some 0 else None)"
    "str_find (attr_src @ t) (attr_src @ q) = (if prefix q t then Some 0 else None)"
    using none by (simp_all add: attr_href_def attr_src_def)
qed

text \<open>Texts without a \<open>url(\<close>.\<close>

definition no_url :: "string \<Rightarrow> bool" where
  "no_url t \<longleftrightarrow> str_find t ''url('' = None"

lemma no_url_simps [simp]:
  "no_url []" "no_url (attr_href @ t) = no_url t" "no_url (attr_src @ t) = no_url t"
  "no_url (a @ ch_slash # b) \<longleftrightarrow> no_url a \<and> no_url b" "no_url (ch_slash # b) = no_url b"
  "no_url (a @ [ch_dquote]) = no_url a" "no_url attr_href" "no_url attr_src"
proof -
  have sep: "no_url (a @ c # b) \<longleftrightarrow> no_url a \<and> no_url b" if "c \<notin> set ''url(''" for a b c
    using str_find_at_separator [OF that, of a b] by (auto simp: no_url_def split: option.splits)
  show nil: "no_url []" by (simp add: no_url_def)
  show "no_url (attr_href @ t) = no_url t" "no_url (attr_src @ t) = no_url t"
    by (simp_all add: no_url_def attr_href_def attr_src_def)
  show "no_url attr_href" "no_url attr_src" by (simp_all add: no_url_def attr_href_def attr_src_def)
  show "no_url (a @ ch_slash # b) \<longleftrightarrow> no_url a \<and> no_url b" by (rule sep) simp
  show "no_url (ch_slash # b) = no_url b" using sep [of ch_slash "[]" b] nil by simp
  show "no_url (a @ [ch_dquote]) = no_url a" using sep [of ch_dquote a "[]"] nil by simp
qed

lemma attr_simps [simp]: "attr_href \<noteq> []" "attr_src \<noteq> []" "attr_url \<noteq> []"
  by (simp_all add: attr_href_def attr_src_def attr_url_def)

text \<open>One replacement in an attribute.\<close>

lemma replace_attr:
  assumes "replace_laws R" and "ch_dquote \<notin> set (butlast t)" and "q \<noteq> []"
  shows "R (attr_href @ t) (attr_src @ q) r = attr_href @ t" and "R (attr_src @ t) (attr_href @ q) r = attr_src @ t"
    and "R (attr_href @ t) (attr_href @ q) r = (if prefix q t then r @ drop (length q) t else attr_href @ t)"
    and "R (attr_src @ t) (attr_src @ q) r = (if prefix q t then r @ drop (length q) t else attr_src @ t)"
proof -
  have tail: "ch_dquote \<notin> set (butlast (drop (length q) t))"
    using assms(2) by (metis butlast_drop in_set_dropD)
  note none = replace_absent [OF assms(1)] and find = str_find_attr [OF assms(2,3)]
  show "R (attr_href @ t) (attr_src @ q) r = attr_href @ t" "R (attr_src @ t) (attr_href @ q) r = attr_src @ t"
    by (simp_all add: none find)
  show "R (attr_href @ t) (attr_href @ q) r = (if prefix q t then r @ drop (length q) t else attr_href @ t)"
    using replace_Some [OF assms(1), of "attr_href @ q" "attr_href @ t" 0 r] str_find_attr [OF tail assms(3)]
    by (simp add: none find)
  show "R (attr_src @ t) (attr_src @ q) r = (if prefix q t then r @ drop (length q) t else attr_src @ t)"
    using replace_Some [OF assms(1), of "attr_src @ q" "attr_src @ t" 0 r] str_find_attr [OF tail assms(3)]
    by (simp add: none find)
qed

lemma replace_url:
  assumes "replace_laws R" and "no_url t"
  shows "R t (attr_url @ q) r = t" and "R t (CHR ''u'' # CHR ''r'' # CHR ''l'' # CHR ''('' # q) r = t"
proof -
  have "str_find t (''url('' @ q') = None" for q'
    using assms(2) unfolding no_url_def by (rule str_find_None_append)
  from replace_absent [OF assms(1) _ this] show "R t (attr_url @ q) r = t"
    "R t (CHR ''u'' # CHR ''r'' # CHR ''l'' # CHR ''('' # q) r = t" by (simp_all add: attr_url_def)
qed

lemma attr_link:
  assumes "replace_laws R" and "ch_dquote \<notin> set u" and "ch_dquote \<notin> set (butlast t)" and "t \<noteq> []"
    and "no_url u" and "no_url t" and "attr = attr_href \<or> attr = attr_src" and "u \<noteq> []"
  shows "replace_relative_html_links R (ch_slash # u) (attr @ ch_slash # t) =
    attr @ rewritten_value (ch_slash # u) t"
proof (cases "hd t = ch_slash")
  case True
  then obtain y where "t = ch_slash # y" using assms(4) by (cases t) auto
  with assms show ?thesis
    by (auto simp: replace_relative_html_links_def rewritten_value_def Let_def replace_attr replace_url butlast_append
        split: if_splits)
next
  case False
  then have "\<not> prefix [ch_slash] t" by (cases t) auto
  with False assms show ?thesis
    by (auto simp: replace_relative_html_links_def rewritten_value_def Let_def replace_attr replace_url butlast_append)
qed

section \<open>Properties\<close>

text \<open>
  C26: In a page an \<open>href\<close> or \<open>src\<close> attribute whose value begins with a slash gets the URL prefix of the
  proxy in front of the value, unless the value begins with two slashes: then it comes out
  unchanged, the prefix being put in and taken out again. The attribute stands between two characters
  that occur neither in the searched strings nor in the prefix, such as a blank and an angle
  bracket; what is before and behind them is rewritten by itself. The value and the prefix hold no
  double quote, which ends the value, and no \<open>url(\<close>, which the other replacements look for;
  everything else may occur in them.
\<close>

theorem link_rewritten:
  assumes "replace_laws R" and "attr = attr_href \<or> attr = attr_src" and "u \<noteq> []"
    and "ch_dquote \<notin> set (u @ x)" and "str_find u ''url('' = None" and "str_find x ''url('' = None"
    and "c \<notin> link_chars \<union> set u" and "d \<notin> link_chars \<union> set u"
  shows "replace_relative_html_links R (ch_slash # u) (a @ [c] @ attr @ ch_slash # x @ [ch_dquote] @ [d] @ b) =
    replace_relative_html_links R (ch_slash # u) a @ [c] @
    attr @ (if x \<noteq> [] \<and> hd x = ch_slash then ch_slash # x else (ch_slash # u) @ ch_slash # x) @ [ch_dquote] @
    [d] @ replace_relative_html_links R (ch_slash # u) b"
proof -
  let ?L = "replace_relative_html_links R (ch_slash # u)" and ?t = "x @ [ch_dquote]"
  have "?L (attr @ ch_slash # ?t) = attr @ rewritten_value (ch_slash # u) ?t"
    using assms(2-6) by (intro attr_link [OF assms(1)]) (auto simp: no_url_def [symmetric])
  moreover have "e \<notin> link_chars \<and> e \<notin> set (ch_slash # u)" if "e = c \<or> e = d" for e
    using that assms(7,8) by (auto simp: link_chars_def)
  then have "?L (a' @ e # b') = ?L a' @ e # ?L b'" if "e = c \<or> e = d" for a' e b'
    using links_at_separator [OF assms(1)] that by blast
  from this [of c a "(attr @ ch_slash # ?t) @ d # b"] this [of d "attr @ ch_slash # ?t" b]
  have "?L (a @ c # (attr @ ch_slash # ?t) @ d # b) = ?L a @ c # ?L (attr @ ch_slash # ?t) @ d # ?L b" by simp
  ultimately show ?thesis by (cases x) (auto simp: rewritten_value_def)
qed

theorem link_rewritten_witness:
  "replace_relative_html_links ref_replace ''/uw'' (''<a '' @ attr_href @ ''/search?q=1'' @ [ch_dquote] @ ''>x'') =
     ''<a '' @ attr_href @ ''/uw/search?q=1'' @ [ch_dquote] @ ''>x'' \<and>
   replace_relative_html_links ref_replace ''/uw'' (''<img '' @ attr_src @ ''//host'' @ [ch_dquote] @ ''>'') =
     ''<img '' @ attr_src @ ''//host'' @ [ch_dquote] @ ''>''"
proof -
  have same: "replace_relative_html_links ref_replace ''/uw'' ''<a'' = ''<a''"
    "replace_relative_html_links ref_replace ''/uw'' ''x'' = ''x''"
    "replace_relative_html_links ref_replace ''/uw'' ''<img'' = ''<img''"
    "replace_relative_html_links ref_replace ''/uw'' [] = []" by code_simp+
  have sep: "ch_space \<notin> link_chars \<union> set ''uw''" "CHR ''>'' \<notin> link_chars \<union> set ''uw''"
    by (simp_all add: link_chars_def attr_href_def attr_src_def attr_url_def hex_slash_def)
  show ?thesis
    using link_rewritten [OF ref_replace_laws _ _ _ _ _ sep, of attr_href "''search?q=1''" "''<a''" "''x''"]
      link_rewritten [OF ref_replace_laws _ _ _ _ _ sep, of attr_src "''/host''" "''<img''" "[]"]
    by (simp add: same)
qed

end
