(* ===== verification/Dispatch.thy ===== *)
theory Dispatch
  imports Links
begin

text \<open>
  The virtual call \<open>RequestHandler::handle_request\<close> over the eight handler classes, and its
  wrapper \<open>get_response\<close> (\<open>src/handler.cc\<close>), which records every request it answers. The record
  \<open>env\<close> holds what one request finds outside the program. The locale \<open>recording\<close> states what
  the sessions rely on: one entry for each answer, and nothing else changed.
\<close>

section \<open>Handlers and their surroundings\<close>

text \<open>
  \<open>status_time\<close> and \<open>record_time\<close> are the clock as the status page and \<open>get_response\<close> read it;
  \<open>oob\<close> is what an index past the end of a string reads. \<open>log_copy\<close> is the log as the status handler
  copied it when it began, if it began before the globals the rest of it sees, and \<open>None\<close> if it
  reads both from the same globals.
\<close>

record env =
  env_fs :: file_system
  env_gzip :: "nat \<Rightarrow> string \<Rightarrow> string"
  env_replace :: "string \<Rightarrow> string \<Rightarrow> string \<Rightarrow> string"
  env_net :: network
  status_time :: string
  record_time :: string
  oob :: "nat \<Rightarrow> char"
  log_copy :: "url_info list option"

text \<open>What the status handler copied.\<close>

definition copied_log :: "env \<Rightarrow> globals \<Rightarrow> url_info list" where
  "copied_log E g = (case log_copy E of None \<Rightarrow> url_infos g | Some infos \<Rightarrow> infos)"

lemma copied_log_simps [simp]:
  "log_copy E = None \<Longrightarrow> copied_log E g = url_infos g" "copied_log (E\<lparr>log_copy := Some infos\<rparr>) g = infos"
  by (simp_all add: copied_log_def)

datatype handler =
    Echo echo_handler
  | SleepEcho echo_handler
  | File file_handler
  | CompressedFile file_handler
  | NotFound base_handler
  | Health base_handler
  | Status base_handler
  | Proxy proxy_handler

text \<open>The part of the object every handler has.\<close>

fun base_of :: "handler \<Rightarrow> base_handler" where
  "base_of (Echo h) = base_handler.truncate h"
| "base_of (SleepEcho h) = base_handler.truncate h"
| "base_of (File h) = base_handler.truncate h"
| "base_of (CompressedFile h) = base_handler.truncate h"
| "base_of (NotFound h) = h"
| "base_of (Health h) = h"
| "base_of (Status h) = h"
| "base_of (Proxy h) = base_handler.truncate h"

fun handle_request :: "beast \<Rightarrow> env \<Rightarrow> globals \<Rightarrow> handler \<Rightarrow> http_request \<Rightarrow> http_response res" where
  "handle_request B E g (Echo h) request = Inr (Echo_handle_request B request)"
| "handle_request B E g (SleepEcho h) request = Inr (SleepEcho_handle_request B request)"
| "handle_request B E g (File h) request = File_handle_request B (env_fs E) h request"
| "handle_request B E g (CompressedFile h) request =
     CompressedFile_handle_request B (env_fs E) (env_gzip E) h request"
| "handle_request B E g (NotFound h) request = Inr (NotFound_handle_request B request)"
| "handle_request B E g (Health h) request = Inr (Health_handle_request B request)"
| "handle_request B E g (Status h) request =
     Inr (Status_handle_request B (status_time E) (copied_log E g) g request)"
| "handle_request B E g (Proxy h) request =
     Proxy_handle_request B (env_replace E) (env_net E) h request"

definition get_response ::
  "beast \<Rightarrow> env \<Rightarrow> handler \<Rightarrow> http_request \<Rightarrow> globals \<Rightarrow> (http_response \<times> globals) res" where
  "get_response B E h request g =
     rbind (handle_request B E g h request) (\<lambda>response.
       Inr (response, record_url (record_time E) request response g))"

section \<open>The contract of \<open>get_response\<close>\<close>

text \<open>Two logs of the server agree up to the times they carry.\<close>

definition untimed :: "url_info list \<Rightarrow> (string \<times> nat) list" where
  "untimed = map (\<lambda>i. (url i, res_code i))"

lemma untimed_append [simp]: "untimed (xs @ ys) = untimed xs @ untimed ys"
  by (simp add: untimed_def)

locale recording =
  fixes respond :: "'e \<Rightarrow> 'h \<Rightarrow> http_request \<Rightarrow> globals \<Rightarrow> (http_response \<times> globals) res"
  assumes one_entry: "respond e h request g = Inr (response, g') \<Longrightarrow>
      untimed (url_infos g') = untimed (url_infos g) @ [(req_target request, res_result response)]"
    and table_kept: "respond e h request g = Inr (response, g') \<Longrightarrow>
      urlToHandlerName g' = urlToHandlerName g \<and> sig_actions g' = sig_actions g \<and> core g' = core g"
begin

text \<open>A sequence of requests, each with its handler.\<close>

primrec respond_all ::
  "('e \<times> 'h \<times> http_request) list \<Rightarrow> globals \<Rightarrow> (http_response list \<times> globals) res" where
  "respond_all [] g = Inr ([], g)"
| "respond_all (x # xs) g =
     rbind (respond (fst x) (fst (snd x)) (snd (snd x)) g) (\<lambda>(response, g).
       rbind (respond_all xs g) (\<lambda>(responses, g). Inr (response # responses, g)))"

lemma respond_all_log:
  "respond_all xs g = Inr (responses, g') \<Longrightarrow>
     length responses = length xs \<and> urlToHandlerName g' = urlToHandlerName g \<and>
     sig_actions g' = sig_actions g \<and> core g' = core g \<and>
     untimed (url_infos g') = untimed (url_infos g) @
       zip (map (\<lambda>x. req_target (snd (snd x))) xs) (map res_result responses)"
proof (induction xs arbitrary: g responses)
  case Nil
  then show ?case by simp
next
  case (Cons x xs)
  obtain response g1 responses1 where
    step: "respond (fst x) (fst (snd x)) (snd (snd x)) g = Inr (response, g1)"
    and run: "respond_all xs g1 = Inr (responses1, g')" and res: "responses = response # responses1"
    using Cons.prems by (auto simp: rbind_eq_Inr_iff)
  from Cons.IH [OF run] one_entry [OF step] table_kept [OF step] show ?case
    by (simp add: res)
qed

lemma log_only_grows:
  assumes "respond e h request g = Inr (response, g')"
  shows "length (url_infos g') = Suc (length (url_infos g))"
  using arg_cong [OF one_entry [OF assms], of length] by (simp add: untimed_def)

end

text \<open>The handlers of the program keep the contract, whichever the library.\<close>

interpretation recorder: recording "\<lambda>BE. get_response (fst BE) (snd BE)"
  by unfold_locales
    (auto simp: get_response_def rbind_eq_Inr_iff record_url_def untimed_def)

section \<open>Which responses are complete on the wire\<close>

lemma CompressedFile_framed:
  "beast_laws B \<Longrightarrow> CompressedFile_handle_request B fs gz h request = Inr r \<Longrightarrow> framed B r"
  by (auto simp: CompressedFile_handle_request_def rbind_eq_Inr_iff Let_def framed_def find_set
      split: if_splits dest: File_handle_request_framed)

lemma handle_request_framed:
  assumes "beast_laws B" and "handle_request B E g h request = Inr r" and "\<forall>p. h \<noteq> Proxy p"
  shows "framed B r"
  using assms
  by (cases h)
    (auto simp: Echo_handle_request_def SleepEcho_handle_request_def NotFound_handle_request_def
      Health_handle_request_def Status_handle_request_def ok_response_sel error_responses_result
      dest: CompressedFile_framed File_handle_request_framed)

text \<open>Whether a handler answers does not depend on what the status handler copied.\<close>

lemma handle_request_uncopied:
  "handle_request B E g h request = Inr r \<Longrightarrow> \<exists>r'. handle_request B (E\<lparr>log_copy := None\<rparr>) g h request = Inr r'"
  by (cases h) simp_all

text \<open>Only the two file handlers can let an exception through, and only the proxy may not return.\<close>

lemma handle_request_total:
  "handle_request B E g h request = Inl e \<Longrightarrow> (\<exists>f. h = File f \<or> h = CompressedFile f) \<or> (\<exists>f. h = Proxy f) \<and> e = NoReturn"
  by (cases h) (auto dest: proxy_never_throws)

end
