(* ===== verification/Routing.thy ===== *)
theory Routing
  imports Dispatch
begin

text \<open>
  The first half of \<open>session::construct_response\<close> (\<open>src/session.cc\<close>): the query is cut off the
  target, and the handler with the longest matching URL prefix is looked up. The lemmas give
  the reference that look-up meets, and relate the URL a handler was found under to the target
  it then works on.
\<close>

section \<open>The code\<close>

text \<open>\<open>erase\<close> is given an index into the part after the last slash.\<close>

definition strip_query :: "string \<Rightarrow> string res" where
  "strip_query target =
     (case str_rfind target ch_slash of
        None \<Rightarrow> Inr target
      | Some last_slash_index \<Rightarrow>
          rbind (str_substr target last_slash_index) (\<lambda>tail.
            case str_find tail [ch_qmark] of
              None \<Rightarrow> Inr target
            | Some first_qmark_index \<Rightarrow> str_erase target first_qmark_index))"

text \<open>One pass of the loop: the longest match so far, its URL and its handler.\<close>

definition route_step ::
  "(nat \<Rightarrow> char) \<Rightarrow> string \<Rightarrow> string \<times> 'h \<Rightarrow> nat \<times> string \<times> 'h option \<Rightarrow> nat \<times> string \<times> 'h option" where
  "route_step out_of_bounds target handler_mapping best =
     (case best of (longest_prefix_match, handler_url, correct_handler) \<Rightarrow>
        (let handler_url_prefix = fst handler_mapping;
             prefix_len = length handler_url_prefix;
             longest_prefix_string_match =
               (take prefix_len target = handler_url_prefix \<and> prefix_len > longest_prefix_match);
             last_dirname_not_a_substr =
               (char_at out_of_bounds target prefix_len = ch_slash \<or> handler_url_prefix = [ch_slash])
         in if longest_prefix_string_match \<and> last_dirname_not_a_substr
            then (prefix_len, handler_url_prefix, Some (snd handler_mapping))
            else best))"

fun route_loop ::
  "(nat \<Rightarrow> char) \<Rightarrow> string \<Rightarrow> (string \<times> 'h) list \<Rightarrow> nat \<times> string \<times> 'h option \<Rightarrow> nat \<times> string \<times> 'h option" where
  "route_loop out_of_bounds target [] best = best"
| "route_loop out_of_bounds target (m # ms) best =
     route_loop out_of_bounds target ms (route_step out_of_bounds target m best)"

definition find_handler ::
  "(nat \<Rightarrow> char) \<Rightarrow> (string \<times> 'h) list \<Rightarrow> string \<Rightarrow> (string \<times> 'h option) res" where
  "find_handler out_of_bounds urlToHandler target =
     rbind (strip_query target) (\<lambda>target.
       case route_loop out_of_bounds (target @ [ch_slash]) urlToHandler (0, [], None) of
         (longest_prefix_match, handler_url, correct_handler) \<Rightarrow> Inr (handler_url, correct_handler))"

section \<open>Cutting the query\<close>

lemma strip_query_total: "succeeds (strip_query target)"
proof (cases "str_rfind target ch_slash")
  case None
  then show ?thesis by (simp add: strip_query_def)
next
  case (Some k)
  then have k: "k < length target" by (simp add: str_rfind_Some_iff)
  show ?thesis
    using Some k
    by (auto simp: strip_query_def str_substr_def str_erase_def
        split: option.split dest!: str_find_Some_split)
qed

lemma strip_query_prefix:
  assumes "strip_query target = Inr t"
  shows "prefix t target"
  using assms
  by (auto simp: strip_query_def rbind_eq_Inr_iff str_erase_def take_is_prefix
      split: option.splits if_splits)

lemma str_rfind_split:
  assumes "c \<notin> set xs"
  shows "str_rfind (ys @ c # xs) c = Some (length ys)"
  using assms by (simp add: str_rfind_Some_iff)

lemma str_find_split:
  assumes "c \<notin> set ys"
  shows "str_find (ys @ c # xs) [c] = Some (length ys)"
proof -
  have "takeWhile (\<lambda>x. x \<noteq> c) (ys @ c # xs) = ys"
    using assms by (subst takeWhile_append2) auto
  then show ?thesis by (simp add: str_find_single)
qed

text \<open>A target with a query after its last slash: what is kept depends on the last segment only.\<close>

lemma strip_query_cut:
  assumes "ch_slash \<notin> set name" and "ch_qmark \<notin> set name" and "ch_slash \<notin> set query"
  shows "strip_query (dir @ ch_slash # name @ ch_qmark # query) =
    Inr (take (Suc (length name)) (dir @ ch_slash # name @ ch_qmark # query))"
proof -
  have "str_rfind (dir @ ch_slash # name @ ch_qmark # query) ch_slash = Some (length dir)"
    using assms by (simp add: str_rfind_split)
  moreover have "str_find (ch_slash # name @ ch_qmark # query) [ch_qmark] = Some (Suc (length name))"
    using assms str_find_split [of ch_qmark "ch_slash # name" query] by simp
  ultimately show ?thesis
    by (simp add: strip_query_def str_substr_def str_erase_def)
qed

lemma strip_query_none:
  assumes "ch_qmark \<notin> set target"
  shows "strip_query target = Inr target"
proof (cases "str_rfind target ch_slash")
  case None
  then show ?thesis by (simp add: strip_query_def)
next
  case (Some k)
  have "k \<le> length target" using Some by (simp add: str_rfind_Some_iff)
  moreover have "ch_qmark \<notin> set (drop k target)" using assms by (meson in_set_dropD)
  ultimately show ?thesis
    by (simp add: Some strip_query_def str_substr_def str_find_single)
qed

section \<open>The longest prefix\<close>

text \<open>
  When a URL prefix matches a target: it is a prefix of it, and it ends where a segment ends;
  \<open>/\<close> matches everything that begins with a slash, and the empty prefix nothing.
\<close>

definition url_matches :: "string \<Rightarrow> string \<Rightarrow> bool" where
  "url_matches target p \<longleftrightarrow> p \<noteq> [] \<and>
     (if p = [ch_slash] then prefix p target else prefix (p @ [ch_slash]) target)"

definition best_so_far ::
  "string \<Rightarrow> (string \<times> 'h) list \<Rightarrow> nat \<times> string \<times> 'h option \<Rightarrow> bool" where
  "best_so_far target seen best \<longleftrightarrow>
     (case best of (n, u, None) \<Rightarrow> n = 0 \<and> u = [] \<and> (\<forall>(p, h) \<in> set seen. \<not> url_matches target p)
      | (n, u, Some h) \<Rightarrow> n = length u \<and> url_matches target u \<and> map_of seen u = Some h \<and>
          (\<forall>(p, h) \<in> set seen. url_matches target p \<longrightarrow> length p \<le> length u))"

lemma take_eq_iff_prefix: "take (length p) t = p \<longleftrightarrow> prefix p t"
  by (metis append_eq_conv_conj prefix_def)

lemma char_at_prefix:
  assumes "prefix p t"
  shows "char_at f t (length p) = ch_slash \<longleftrightarrow> prefix (p @ [ch_slash]) t"
proof -
  obtain q where t: "t = p @ q" using assms by (auto simp: prefix_def)
  show ?thesis by (cases q) (auto simp: t char_at_def)
qed

lemma route_step_alt:
  "route_step f target (p, h) (n, u, c) =
     (if url_matches target p \<and> n < length p then (length p, p, Some h) else (n, u, c))"
  by (auto simp: route_step_def Let_def take_eq_iff_prefix url_matches_def char_at_prefix
      dest: append_prefixD)

text \<open>Equally long matches are the same URL, so the first handler registered for it is kept.\<close>

lemma url_matches_same:
  assumes "url_matches t p" and "url_matches t q" and "length p = length q"
  shows "p = q"
proof -
  have "prefix p t" and "prefix q t"
    using assms(1,2) by (auto simp: url_matches_def split: if_splits dest: append_prefixD)
  with assms(3) show ?thesis
    by (metis append_eq_append_conv prefix_def)
qed

lemma route_step_best:
  assumes "best_so_far target seen best"
  shows "best_so_far target (seen @ [(p, h)]) (route_step f target (p, h) best)"
proof -
  obtain n u c where best: "best = (n, u, c)" by (cases best)
  show ?thesis
  proof (cases c)
    case None
    with assms best show ?thesis
      by (auto simp: best_so_far_def route_step_alt map_add_def url_matches_def split: option.splits
          dest!: map_of_SomeD)
  next
    case (Some h')
    have keep: "\<not> length u < length p \<Longrightarrow> url_matches target p \<Longrightarrow> length p \<le> length u" by simp
    have new: "map_of seen p = None" if "url_matches target p" "length u < length p"
      using assms best Some that by (auto simp: best_so_far_def map_of_eq_None_iff)
    show ?thesis
      using assms best Some new
      by (fastforce simp: best_so_far_def route_step_alt map_add_def split: option.splits)
  qed
qed

lemma route_loop_best:
  "best_so_far target seen best \<Longrightarrow>
     best_so_far target (seen @ table) (route_loop f target table best)"
proof (induction table arbitrary: seen best)
  case Nil
  then show ?case by simp
next
  case (Cons m ms)
  from Cons.IH [OF route_step_best [OF Cons.prems, of "fst m" "snd m" f]] show ?case
    by simp
qed

lemma route_loop_oob: "route_loop f target table best = route_loop f' target table best"
proof (induction table arbitrary: best)
  case (Cons m ms)
  have "route_step f target m best = route_step f' target m best"
    by (cases m; cases best) (simp add: route_step_alt)
  with Cons show ?case by simp
qed simp

lemma find_handler_spec:
  assumes "strip_query target = Inr t"
  shows "\<exists>u c. find_handler f table target = Inr (u, c) \<and>
    (case c of
       None \<Rightarrow> \<forall>(p, h) \<in> set table. \<not> url_matches (t @ [ch_slash]) p
     | Some h \<Rightarrow> url_matches (t @ [ch_slash]) u \<and> map_of table u = Some h \<and>
         (\<forall>(p, h) \<in> set table. url_matches (t @ [ch_slash]) p \<longrightarrow> length p \<le> length u))"
proof -
  obtain n u c where loop: "route_loop f (t @ [ch_slash]) table (0, [], None) = (n, u, c)"
    by (metis prod_cases3)
  have "best_so_far (t @ [ch_slash]) [] (0, [], None :: 'a option)"
    by (simp add: best_so_far_def)
  from route_loop_best [OF this, of table f] have "best_so_far (t @ [ch_slash]) table (n, u, c)"
    by (simp add: loop)
  then show ?thesis
    using assms loop by (auto simp: find_handler_def best_so_far_def split: option.splits)
qed

text \<open>A handler is only given targets that begin with its URL prefix.\<close>

lemma url_matches_slash_prefix:
  assumes "url_matches (t @ [ch_slash]) u"
  shows "prefix u t \<or> u = [ch_slash]"
  using assms by (auto simp: url_matches_def split: if_splits dest: append_prefixD)

lemma find_handler_prefix:
  assumes "find_handler f table target = Inr (u, Some h)"
  shows "(prefix u target \<or> u = [ch_slash]) \<and> (u, h) \<in> set table"
proof -
  obtain t where t: "strip_query target = Inr t"
    using assms by (auto simp: find_handler_def rbind_eq_Inr_iff)
  from find_handler_spec [OF t, of f table] assms
  have "url_matches (t @ [ch_slash]) u" and "map_of table u = Some h" by auto
  then show ?thesis
    using url_matches_slash_prefix strip_query_prefix [OF t]
    by (auto dest: map_of_SomeD prefix_order.trans)
qed

text \<open>The part of the target behind the handler's prefix always exists.\<close>

lemma drop_trailing_slash_prefix:
  assumes "prefix u target \<or> u = [ch_slash]"
  shows "length (drop_trailing_slash u) \<le> length (drop_trailing_slash target)"
  using assms
proof
  assume "prefix u target"
  then obtain q where q: "target = u @ q" by (auto simp: prefix_def)
  show ?thesis by (cases q) (auto simp: q drop_trailing_slash_alt last_append)
next
  assume "u = [ch_slash]"
  then show ?thesis by (simp add: drop_trailing_slash_alt)
qed

section \<open>What the rest of the server relies on\<close>

text \<open>
  The interface of the look-up: the path of a target, and what is found for it in a table. Its
  clients know neither the loop nor the out-of-bounds read.
\<close>

locale router =
  fixes path_of :: "string \<Rightarrow> string res"
    and find_in :: "(string \<times> 'h) list \<Rightarrow> string \<Rightarrow> (string \<times> 'h option) res"
  assumes has_path: "succeeds (path_of target)"
    and finds: "path_of target = Inr t \<Longrightarrow> \<exists>u c. find_in table target = Inr (u, c) \<and>
      (case c of
         None \<Rightarrow> \<forall>(p, h) \<in> set table. \<not> url_matches (t @ [ch_slash]) p
       | Some h \<Rightarrow> url_matches (t @ [ch_slash]) u \<and> map_of table u = Some h \<and>
           (\<forall>(p, h) \<in> set table. url_matches (t @ [ch_slash]) p \<longrightarrow> length p \<le> length u))"
begin

lemma path: obtains t where "path_of target = Inr t"
  using has_path by (rule succeedsE)

lemma unmatched:
  assumes "path_of target = Inr t" and "\<forall>(p, h) \<in> set table. \<not> url_matches (t @ [ch_slash]) p"
  shows "\<exists>u. find_in table target = Inr (u, None)"
proof -
  obtain u c where found: "find_in table target = Inr (u, c)"
    and "case c of None \<Rightarrow> True | Some h \<Rightarrow> url_matches (t @ [ch_slash]) u \<and> map_of table u = Some h"
    using finds [OF assms(1), of table] by (fastforce split: option.splits)
  with assms(2) show ?thesis by (cases c) (auto dest: map_of_SomeD)
qed

lemma longest:
  assumes t: "path_of target = Inr t" and u: "url_matches (t @ [ch_slash]) u" "map_of table u = Some h"
    and longest: "\<And>p h. (p, h) \<in> set table \<Longrightarrow> url_matches (t @ [ch_slash]) p \<Longrightarrow> length p \<le> length u"
  shows "find_in table target = Inr (u, Some h)"
proof -
  obtain v c where found: "find_in table target = Inr (v, c)"
    and spec: "case c of None \<Rightarrow> \<forall>(p, h) \<in> set table. \<not> url_matches (t @ [ch_slash]) p
      | Some h \<Rightarrow> url_matches (t @ [ch_slash]) v \<and> map_of table v = Some h \<and>
          (\<forall>(p, h) \<in> set table. url_matches (t @ [ch_slash]) p \<longrightarrow> length p \<le> length v)"
    using finds [OF t, of table] by blast
  have mem: "(u, h) \<in> set table" using u(2) by (rule map_of_SomeD)
  with u(1) spec obtain h' where c: "c = Some h'" by (cases c) auto
  with spec mem u(1) have v: "url_matches (t @ [ch_slash]) v" "map_of table v = Some h'" "length u \<le> length v" by auto
  from longest [OF map_of_SomeD [OF v(2)] v(1)] v(3) have "u = v"
    using url_matches_same [OF u(1) v(1)] by simp
  with found c v(2) u(2) show ?thesis by simp
qed

lemma registered:
  assumes "find_in table target = Inr (u, Some h)"
  shows "(u, h) \<in> set table"
proof -
  obtain t where "path_of target = Inr t" by (rule path)
  from finds [OF this, of table] assms show ?thesis by (auto dest: map_of_SomeD)
qed

end

interpretation route: router strip_query "find_handler f" for f
  by unfold_locales (rule strip_query_total, rule find_handler_spec)

section \<open>Properties\<close>

text \<open>
  C4: The handler a request is given to is the one with the longest URL prefix that matches the
  target, cut at the query, on a segment boundary, the first registered one for that prefix; no
  handler is found exactly if no prefix matches. The look-up always returns.
\<close>

theorem route_longest:
  "\<exists>t u c. strip_query target = Inr t \<and> find_handler f table target = Inr (u, c) \<and>
    (case c of
       None \<Rightarrow> \<forall>(p, h) \<in> set table. \<not> url_matches (t @ [ch_slash]) p
     | Some h \<Rightarrow> url_matches (t @ [ch_slash]) u \<and> map_of table u = Some h \<and>
         (\<forall>(p, h) \<in> set table. url_matches (t @ [ch_slash]) p \<longrightarrow> length p \<le> length u))"
proof -
  obtain t where t: "strip_query target = Inr t" using strip_query_total by (rule succeedsE)
  with find_handler_spec [OF t] show ?thesis by blast
qed

theorem route_longest_witness:
  "\<exists>t u c. strip_query ''/a/b?x'' = Inr t \<and>
     find_handler (\<lambda>i. ch_slash) [(''/'', 1 :: nat), (''/a'', 2), (''/a/b'', 3)] ''/a/b?x'' = Inr (u, c) \<and>
    (case c of
       None \<Rightarrow> \<forall>(p, h) \<in> set [(''/'', 1 :: nat), (''/a'', 2), (''/a/b'', 3)]. \<not> url_matches (t @ [ch_slash]) p
     | Some h \<Rightarrow> url_matches (t @ [ch_slash]) u \<and> map_of [(''/'', 1 :: nat), (''/a'', 2), (''/a/b'', 3)] u = Some h \<and>
         (\<forall>(p, h) \<in> set [(''/'', 1 :: nat), (''/a'', 2), (''/a/b'', 3)].
            url_matches (t @ [ch_slash]) p \<longrightarrow> length p \<le> length u))"
  by (rule route_longest)

text \<open>
  The look-up reads \<open>target[prefix_len]\<close> past the end of the target for a URL prefix longer than
  it; what is found there never changes the handler that is chosen.
\<close>

lemma route_ignores_oob: "find_handler f table target = find_handler f' table target"
  by (simp add: find_handler_def route_loop_oob [of f _ _ _ f'])

text \<open>
  C28: Cutting the query off a target with one after its last slash leaves the path itself exactly
  if that slash is the first character; for a deeper path the erased part begins too early.
\<close>

theorem query_cut_iff:
  assumes "ch_slash \<notin> set name" and "ch_qmark \<notin> set name" and "ch_slash \<notin> set query"
  shows "strip_query (dir @ ch_slash # name @ ch_qmark # query) = Inr (dir @ ch_slash # name) \<longleftrightarrow> dir = []"
proof
  assume "strip_query (dir @ ch_slash # name @ ch_qmark # query) = Inr (dir @ ch_slash # name)"
  then have "take (Suc (length name)) (dir @ ch_slash # name @ ch_qmark # query) = dir @ ch_slash # name"
    using strip_query_cut [OF assms] by simp
  then have "length (take (Suc (length name)) (dir @ ch_slash # name @ ch_qmark # query)) =
      length (dir @ ch_slash # name)" by (rule arg_cong)
  then show "dir = []" by (simp add: min_def split: if_splits)
next
  assume "dir = []"
  then show "strip_query (dir @ ch_slash # name @ ch_qmark # query) = Inr (dir @ ch_slash # name)"
    using strip_query_cut [OF assms, of dir] by simp
qed

theorem query_cut_iff_witness:
  "strip_query ''/echo?x=1'' = Inr ''/echo'' \<and> strip_query ''/a/b?x=1'' \<noteq> Inr ''/a/b''"
  using query_cut_iff [of "''echo''" "''x=1''" "[]"] query_cut_iff [of "''b''" "''x=1''" "''/a''"] by simp

text \<open>
  C27: A handler is only found for a target that is at least as long, each without a trailing slash,
  as the URL prefix the handler is registered under: what the handlers cut off the target is
  always there.
\<close>

theorem routed_prefix:
  assumes "find_handler f table target = Inr (u, Some h)"
  shows "(u, h) \<in> set table \<and> length (drop_trailing_slash u) \<le> length (drop_trailing_slash target)"
  using find_handler_prefix [OF assms] drop_trailing_slash_prefix by blast

theorem routed_prefix_witness:
  "find_handler (\<lambda>i. ch_slash) [(''/a'', 1 :: nat)] ''/a/'' = Inr (''/a'', Some 1) \<and>
     length (drop_trailing_slash ''/a'') \<le> length (drop_trailing_slash ''/a/'')"
proof -
  have "find_handler (\<lambda>i. ch_slash) [(''/a'', 1 :: nat)] ''/a/'' = Inr (''/a'', Some 1)" by code_simp
  with routed_prefix [OF this] show ?thesis by simp
qed

end
