(* ===== verification/Session.thy ===== *)
theory Session
  imports Routing
begin

text \<open>
  A connection (\<open>src/session.cc\<close>, \<open>src/sessionTCP.cc\<close>, \<open>src/sessionSSL.cc\<close>). The base class calls
  the stream through virtual functions: the record \<open>stream_ops\<close> is that table, \<open>tcp_ops\<close> and
  \<open>ssl_ops\<close> are the overrides of the two subclasses, and the locale \<open>session_stream\<close> says what
  the base class relies on. An asynchronous operation is armed by setting \<open>pending\<close> to it; the
  step relation lets its completion run the callback that was bound to it. A callback that arms
  nothing lets go of the last reference to the session.
\<close>

section \<open>State\<close>

datatype read_error = Timeout | EndOfStream | OtherError string

text \<open>
  \<open>StartRead\<close> and \<open>StartHandshake\<close>: \<open>do_read\<close> or \<open>do_handshake\<close> dispatched to the strand.
  \<open>PendingWrite\<close> carries the argument \<open>close\<close> bound to \<open>finished_write\<close>.
\<close>

datatype pending = Idle | StartRead | StartHandshake | PendingHandshake | PendingRead | PendingWrite bool

datatype shutdown_type = ShutdownSend | ShutdownBoth

text \<open>
  Of the stream the state keeps the last time-out set, in seconds, how it was shut down, and
  the responses handed to \<open>http::async_write\<close>, each with its \<open>close\<close>.
\<close>

record session =
  session_name :: string
  sess_config :: nginx_config
  urlToHandler :: "(string \<times> handler) list"
  sess_req :: http_request
  sess_res :: http_response
  pending :: pending
  expires :: "nat option"
  shut :: "shutdown_type option"
  written :: "(http_response \<times> bool) list"

record stream_ops =
  async_read_stream :: "session \<Rightarrow> session"
  async_write_stream :: "bool \<Rightarrow> session \<Rightarrow> session"
  set_expiration :: "nat \<Rightarrow> session \<Rightarrow> session"
  shutdown_stream :: "session \<Rightarrow> session"

section \<open>The base class\<close>

definition do_read :: "stream_ops \<Rightarrow> session \<Rightarrow> session" where
  "do_read ops s =
     (let s = s\<lparr>sess_req := empty_request\<rparr>;
          s = set_expiration ops 30 s
      in async_read_stream ops s)"

definition construct_response ::
  "beast \<Rightarrow> env \<Rightarrow> http_request \<Rightarrow> session \<Rightarrow> globals \<Rightarrow> (session \<times> globals) res" where
  "construct_response B E request s g =
     rbind (find_handler (oob E) (urlToHandler s) (req_target request)) (\<lambda>(handler_url, correct_handler).
       case correct_handler of
         None \<Rightarrow> Inr (s\<lparr>sess_res := not_found_error B\<rparr>, g)
       | Some h \<Rightarrow>
           (let s = (if get_name (base_of h) = ''CompressedFileHandler''
                     then s\<lparr>session_name := session_name s @ ''CompressedFileHandler: ''\<rparr> else s)
            in rbind (get_response B E h request g) (\<lambda>(response, g).
                 Inr (s\<lparr>sess_res := response\<lparr>res_fields :=
                        set_field B ''Connection''
                          (if keep_alive (base_of h) then ''keep-alive'' else ''close'')
                          (res_fields response)\<rparr>\<rparr>, g))))"

definition on_read ::
  "beast \<Rightarrow> env \<Rightarrow> stream_ops \<Rightarrow> read_error option \<Rightarrow> session \<Rightarrow> globals \<Rightarrow> (session \<times> globals) res" where
  "on_read B E ops err s g =
     (case err of
        Some Timeout \<Rightarrow> Inr (s, g)
      | Some EndOfStream \<Rightarrow> Inr (shutdown_stream ops s, g)
      | Some (OtherError m) \<Rightarrow>
          Inr (async_write_stream ops True (s\<lparr>sess_res := bad_request B\<rparr>), g)
      | None \<Rightarrow>
          rbind (construct_response B E (sess_req s) s g) (\<lambda>(s, g).
            let close = (if find_field B ''Connection'' (res_fields (sess_res s)) = Some ''close''
                         then True else need_eof B (sess_res s))
            in Inr (async_write_stream ops close s, g)))"

text \<open>The third argument tells whether the write failed.\<close>

definition finished_write :: "stream_ops \<Rightarrow> bool \<Rightarrow> bool \<Rightarrow> session \<Rightarrow> session" where
  "finished_write ops close err s =
     (if err then s
      else if close then shutdown_stream ops s
      else do_read ops (s\<lparr>sess_res := empty_response\<rparr>))"

section \<open>The two kinds of session\<close>

definition new_session :: "string \<Rightarrow> nginx_config \<Rightarrow> (string \<times> handler) list \<Rightarrow> session" where
  "new_session nm c utoh =
     \<lparr>session_name = nm, sess_config = c, urlToHandler = utoh, sess_req = empty_request,
      sess_res = empty_response, pending = Idle, expires = None, shut = None, written = []\<rparr>"

definition sessionTCP :: "nginx_config \<Rightarrow> (string \<times> handler) list \<Rightarrow> session" where
  "sessionTCP c utoh = new_session ''sessionTCP: '' c utoh"

definition startTCP :: "session \<Rightarrow> session" where
  "startTCP s = s\<lparr>pending := StartRead\<rparr>"

definition tcp_ops :: stream_ops where
  "tcp_ops =
     \<lparr>async_read_stream = (\<lambda>s. s\<lparr>pending := PendingRead\<rparr>),
      async_write_stream = (\<lambda>close s. s\<lparr>pending := PendingWrite close,
                              written := written s @ [(sess_res s, close)]\<rparr>),
      set_expiration = (\<lambda>n s. s\<lparr>expires := Some n\<rparr>),
      shutdown_stream = (\<lambda>s. s\<lparr>shut := Some ShutdownBoth\<rparr>)\<rparr>"

definition sessionSSL :: "nginx_config \<Rightarrow> (string \<times> handler) list \<Rightarrow> session" where
  "sessionSSL c utoh = new_session ''sessionSSL: '' c utoh"

definition startSSL :: "session \<Rightarrow> session" where
  "startSSL s = s\<lparr>pending := StartHandshake\<rparr>"

definition ssl_ops :: stream_ops where
  "ssl_ops =
     \<lparr>async_read_stream = (\<lambda>s. s\<lparr>pending := PendingRead\<rparr>),
      async_write_stream = (\<lambda>close s. s\<lparr>pending := PendingWrite close,
                              written := written s @ [(sess_res s, close)]\<rparr>),
      set_expiration = (\<lambda>n s. s\<lparr>expires := Some n\<rparr>),
      shutdown_stream = (\<lambda>s. s\<lparr>shut := Some ShutdownSend\<rparr>)\<rparr>"

definition do_handshake :: "stream_ops \<Rightarrow> session \<Rightarrow> session" where
  "do_handshake ops s = (set_expiration ops 30 s)\<lparr>pending := PendingHandshake\<rparr>"

definition after_handshake :: "stream_ops \<Rightarrow> bool \<Rightarrow> session \<Rightarrow> session" where
  "after_handshake ops err s = (if err then s else do_read ops s)"

section \<open>Completions\<close>

text \<open>
  What the event loop reports: the strand runs the dispatched function, the handshake ends
  (with an error or not), a read ends with an error and with what it left in \<open>req_\<close>, a write
  ends. A read also brings the surroundings its request finds.
\<close>

datatype event =
    Dispatched
  | HandshakeDone bool
  | ReadDone "read_error option" http_request env
  | WriteDone bool

inductive session_step ::
  "beast \<Rightarrow> stream_ops \<Rightarrow> session \<Rightarrow> globals \<Rightarrow> event \<Rightarrow> (session \<times> globals) res \<Rightarrow> bool"
  for B ops where
  start_read: "pending s = StartRead \<Longrightarrow>
     session_step B ops s g Dispatched (Inr (do_read ops (s\<lparr>pending := Idle\<rparr>), g))"
| start_handshake: "pending s = StartHandshake \<Longrightarrow>
     session_step B ops s g Dispatched (Inr (do_handshake ops (s\<lparr>pending := Idle\<rparr>), g))"
| handshake_done: "pending s = PendingHandshake \<Longrightarrow>
     session_step B ops s g (HandshakeDone err) (Inr (after_handshake ops err (s\<lparr>pending := Idle\<rparr>), g))"
| read_done: "pending s = PendingRead \<Longrightarrow>
     session_step B ops s g (ReadDone err request E)
       (on_read B E ops err (s\<lparr>pending := Idle, sess_req := request\<rparr>) g)"
| write_done: "pending s = PendingWrite close \<Longrightarrow>
     session_step B ops s g (WriteDone err)
       (Inr (finished_write ops close err (s\<lparr>pending := Idle\<rparr>), g))"

inductive_cases session_step_readE: "session_step B ops s g (ReadDone err request E) r"
inductive_simps session_step_iff: "session_step B ops s g ev r"

text \<open>
  A run of one session. Between its steps other sessions may change the shared globals: every
  event comes with the globals its callback found.
\<close>

inductive session_run ::
  "beast \<Rightarrow> stream_ops \<Rightarrow> session \<Rightarrow> (globals \<times> event) list \<Rightarrow> session \<Rightarrow> bool"
  for B ops where
  done_nil: "session_run B ops s [] s"
| step: "session_run B ops s tr s1 \<Longrightarrow> session_step B ops s1 g ev (Inr (s2, g2)) \<Longrightarrow>
     session_run B ops s (tr @ [(g, ev)]) s2"

section \<open>What a session answers\<close>

text \<open>
  The reply to a completed read as a function of the routing table alone: nothing for a time-out
  or the end of the stream, otherwise a response and whether the connection ends with it.
\<close>

definition response_for ::
  "beast \<Rightarrow> env \<Rightarrow> (string \<times> handler) list \<Rightarrow> http_request \<Rightarrow> globals \<Rightarrow> (http_response \<times> globals) res" where
  "response_for B E table request g =
     rbind (find_handler (oob E) table (req_target request)) (\<lambda>(u, c).
       case c of
         None \<Rightarrow> Inr (not_found_error B, g)
       | Some h \<Rightarrow> rbind (get_response B E h request g) (\<lambda>(r, g).
           Inr (r\<lparr>res_fields := set_field B ''Connection''
              (if keep_alive (base_of h) then ''keep-alive'' else ''close'') (res_fields r)\<rparr>, g)))"

definition closes :: "beast \<Rightarrow> http_response \<Rightarrow> bool" where
  "closes B r \<longleftrightarrow> find_field B ''Connection'' (res_fields r) = Some ''close'' \<or> need_eof B r"

fun replies :: "beast \<Rightarrow> (string \<times> handler) list \<Rightarrow> globals \<times> event \<Rightarrow> http_response list" where
  "replies B table (g, ReadDone None request E) =
     (case response_for B E table request g of Inr (r, g') \<Rightarrow> [r] | Inl e \<Rightarrow> [])"
| "replies B table (g, ReadDone (Some (OtherError m)) request E) = [bad_request B]"
| "replies B table (g, ev) = []"

definition transcript :: "beast \<Rightarrow> (string \<times> handler) list \<Rightarrow> (globals \<times> event) list \<Rightarrow> http_response list" where
  "transcript B table tr = concat (map (replies B table) tr)"

lemma transcript_snoc [simp]:
  "transcript B table (tr @ [x]) = transcript B table tr @ replies B table x"
  "transcript B table [] = []"
  by (simp_all add: transcript_def)

text \<open>
  The completions with which the connection ends: the end of the client's stream, and a successful
  write of a response that says so or that is complete only at the end of the stream; \<open>rs\<close> are the
  responses handed to the stream so far.
\<close>

fun ends_stream :: "beast \<Rightarrow> http_response list \<Rightarrow> event \<Rightarrow> bool" where
  "ends_stream B rs (ReadDone (Some EndOfStream) request E) \<longleftrightarrow> True"
| "ends_stream B rs (WriteDone False) \<longleftrightarrow> rs \<noteq> [] \<and> closes B (last rs)"
| "ends_stream B rs ev \<longleftrightarrow> False"

definition ended :: "beast \<Rightarrow> event list \<Rightarrow> http_response list \<Rightarrow> bool" where
  "ended B evs rs \<longleftrightarrow> evs \<noteq> [] \<and> ends_stream B rs (last evs)"

text \<open>The session's name is the only thing \<open>construct_response\<close> adds to this.\<close>

definition name_suffix :: "(string \<times> handler option) res \<Rightarrow> string" where
  "name_suffix found =
     (case found of
        Inr (u, Some h) \<Rightarrow>
          if get_name (base_of h) = ''CompressedFileHandler'' then ''CompressedFileHandler: '' else []
      | _ \<Rightarrow> [])"

lemma construct_response_eq:
  "construct_response B E request s g =
     rbind (response_for B E (urlToHandler s) request g) (\<lambda>(r, g').
       Inr (s\<lparr>session_name := session_name s @
                name_suffix (find_handler (oob E) (urlToHandler s) (req_target request)),
              sess_res := r\<rparr>, g'))"
proof (cases "find_handler (oob E) (urlToHandler s) (req_target request)")
  case (Inl e)
  then show ?thesis by (simp add: construct_response_def response_for_def)
next
  case (Inr found)
  then obtain u c where found: "find_handler (oob E) (urlToHandler s) (req_target request) = Inr (u, c)"
    by (cases found) simp
  show ?thesis
  proof (cases c)
    case None
    with found show ?thesis
      by (simp add: construct_response_def response_for_def name_suffix_def)
  next
    case (Some h)
    with found show ?thesis
      by (cases "get_response B E h request g")
        (auto simp: construct_response_def response_for_def name_suffix_def Let_def)
  qed
qed

section \<open>What the base class relies on\<close>

text \<open>
  The life of a session: nothing is armed once the stream is shut down; a response that ends the
  connection is the last one; while a write is under way its response is the last one noted;
  while the session waits for a request no response has ended the connection.
\<close>

definition life_ok :: "shutdown_type \<Rightarrow> session \<Rightarrow> bool" where
  "life_ok kind s \<longleftrightarrow>
     (shut s \<noteq> None \<longrightarrow> pending s = Idle \<and> shut s = Some kind) \<and>
     (\<forall>x \<in> set (butlast (written s)). \<not> snd x) \<and>
     (\<forall>c. pending s = PendingWrite c \<longrightarrow> written s \<noteq> [] \<and> last (written s) = (sess_res s, c)) \<and>
     (pending s \<in> {StartRead, StartHandshake, PendingHandshake, PendingRead} \<longrightarrow>
        (\<forall>x \<in> set (written s). \<not> snd x)) \<and>
     (pending s \<in> {PendingHandshake, PendingRead} \<longrightarrow> expires s = Some 30)"

text \<open>
  The overrides arm an operation, note the response they send, set the timer or shut the socket
  down in their own way, and touch nothing else.
\<close>

locale session_stream =
  fixes ops :: stream_ops and kind :: shutdown_type
  assumes arm_read: "async_read_stream ops s = s\<lparr>pending := PendingRead\<rparr>"
    and arm_write: "async_write_stream ops c s =
      s\<lparr>pending := PendingWrite c, written := written s @ [(sess_res s, c)]\<rparr>"
    and set_timer: "set_expiration ops n s = s\<lparr>expires := Some n\<rparr>"
    and shut_down: "shutdown_stream ops s = s\<lparr>shut := Some kind\<rparr>"
begin

lemmas stream_laws = arm_read arm_write set_timer shut_down

lemma written_snoc:
  assumes "\<forall>x \<in> set (butlast xs). P x" and "xs \<noteq> [] \<longrightarrow> P (last xs)"
  shows "\<forall>x \<in> set xs. P x"
  using assms by (cases xs rule: rev_cases) auto

text \<open>What \<open>on_read\<close> does: nothing, shut the stream down, or send the one reply.\<close>

lemma on_read_cases:
  assumes "on_read B E ops err s g = Inr (s', g')"
  obtains (timeout) "err = Some Timeout" "s' = s"
  | (ended) "err = Some EndOfStream" "s' = s\<lparr>shut := Some kind\<rparr>"
  | (reply) r n c where "replies B (urlToHandler s) (g, ReadDone err (sess_req s) E) = [r]"
      "c = (err \<noteq> None \<or> closes B r)" "err = None \<or> r = bad_request B"
      "s' = s\<lparr>session_name := n, sess_res := r, pending := PendingWrite c, written := written s @ [(r, c)]\<rparr>"
proof (cases err)
  case None
  then obtain r where resp: "response_for B E (urlToHandler s) (sess_req s) g = Inr (r, g')"
    and s': "s' = async_write_stream ops (closes B r)
      (s\<lparr>session_name := session_name s @
           name_suffix (find_handler (oob E) (urlToHandler s) (req_target (sess_req s))), sess_res := r\<rparr>)"
    using assms by (auto simp: on_read_def construct_response_eq rbind_eq_Inr_iff closes_def Let_def)
  show ?thesis by (rule reply) (auto simp: None resp s' arm_write)
next
  case (Some e)
  show ?thesis
  proof (cases e)
    case (OtherError m)
    show ?thesis
      by (rule reply [of "bad_request B" True "session_name s"])
        (use assms in \<open>auto simp: Some OtherError on_read_def arm_write\<close>)
  qed (use assms Some timeout ended in \<open>auto simp: on_read_def shut_down\<close>)
qed

lemma on_read_pending:
  assumes "on_read B E ops err s g = Inr (s', g')" and "pending s = Idle" and "shut s = None"
    and "\<forall>x \<in> set (written s). \<not> snd x"
  shows "life_ok kind s'"
  using assms(1)
proof (cases rule: on_read_cases)
  case timeout
  with assms show ?thesis by (metis in_set_butlastD life_ok_def pending.distinct option.distinct(1) empty_iff insert_iff)
next
  case ended
  with assms have "\<forall>x \<in> set (butlast (written s)). \<not> snd x" by (meson in_set_butlastD)
  with ended assms show ?thesis by (simp add: life_ok_def)
next
  case reply
  with assms show ?thesis by (simp add: life_ok_def)
qed

lemma life_ok_step:
  assumes "session_step B ops s g ev (Inr (s', g'))" and "life_ok kind s"
  shows "life_ok kind s'"
  using assms(1)
proof (cases rule: session_step.cases)
  case start_read
  with assms(2) show ?thesis by (auto simp: life_ok_def do_read_def stream_laws in_set_butlastD)
next
  case start_handshake
  with assms(2) show ?thesis by (auto simp: life_ok_def do_handshake_def stream_laws in_set_butlastD)
next
  case (handshake_done err)
  with assms(2) show ?thesis
    by (auto simp: life_ok_def after_handshake_def do_read_def stream_laws in_set_butlastD)
next
  case (read_done err request E)
  with assms(2) show ?thesis
    by (intro on_read_pending [of B E err "s\<lparr>pending := Idle, sess_req := request\<rparr>" g s' g'])
      (auto simp: life_ok_def)
next
  case (write_done c err)
  then have last: "written s \<noteq> []" "last (written s) = (sess_res s, c)"
    and early: "\<forall>x \<in> set (butlast (written s)). \<not> snd x" and "shut s = None"
    using assms(2) by (auto simp: life_ok_def)
  moreover have "\<forall>x \<in> set (written s). \<not> snd x" if "\<not> c"
    using written_snoc [OF early] last that by simp
  ultimately show ?thesis
    using write_done by (auto simp: life_ok_def finished_write_def do_read_def stream_laws)
qed

lemma life_ok_run: "session_run B ops s tr s' \<Longrightarrow> life_ok kind s \<Longrightarrow> life_ok kind s'"
  by (induction rule: session_run.induct) (auto dest: life_ok_step)

lemma life_ok_new:
  "life_ok kind (new_session nm c table\<lparr>pending := StartRead\<rparr>)"
  "life_ok kind (new_session nm c table\<lparr>pending := StartHandshake\<rparr>)"
  by (simp_all add: life_ok_def new_session_def)

text \<open>The routing table never changes, and the responses are the transcript's.\<close>

lemma on_read_written:
  assumes "on_read B E ops err s g = Inr (s', g')"
  shows "urlToHandler s' = urlToHandler s \<and>
    map fst (written s') = map fst (written s) @ replies B (urlToHandler s) (g, ReadDone err (sess_req s) E)"
  using assms by (cases rule: on_read_cases) simp_all

lemma step_written:
  assumes "session_step B ops s g ev (Inr (s', g'))"
  shows "urlToHandler s' = urlToHandler s \<and>
    map fst (written s') = map fst (written s) @ replies B (urlToHandler s) (g, ev)"
  using assms
proof (cases rule: session_step.cases)
  case (read_done err request E)
  then show ?thesis
    using on_read_written [of B E err "s\<lparr>pending := Idle, sess_req := request\<rparr>" g s' g'] by simp
qed (auto simp: do_read_def do_handshake_def after_handshake_def finished_write_def stream_laws)

lemma run_written:
  "session_run B ops s tr s' \<Longrightarrow>
     urlToHandler s' = urlToHandler s \<and>
     map fst (written s') = map fst (written s) @ transcript B (urlToHandler s) tr"
  by (induction rule: session_run.induct) (auto dest!: step_written)

text \<open>Whether a response ends the connection is read off the response.\<close>

lemma on_read_closes:
  assumes "on_read B E ops err s g = Inr (s', g')" and "beast_laws B"
    and "\<forall>x \<in> set (written s). snd x = closes B (fst x)"
  shows "\<forall>x \<in> set (written s'). snd x = closes B (fst x)"
  using assms(1)
proof (cases rule: on_read_cases)
  case (reply r n c)
  have "closes B (bad_request B)"
    using assms(2) by (simp add: closes_def bad_request_def plain_error_sel)
  with reply assms(3) show ?thesis by auto
qed (use assms in simp_all)

lemma step_closes:
  assumes "session_step B ops s g ev (Inr (s', g'))" and "beast_laws B"
    and "\<forall>x \<in> set (written s). snd x = closes B (fst x)"
  shows "\<forall>x \<in> set (written s'). snd x = closes B (fst x)"
  using assms(1)
proof (cases rule: session_step.cases)
  case (read_done err request E)
  show ?thesis
    by (rule on_read_closes [OF read_done(2) [symmetric] assms(2)]) (use assms(3) in simp)
qed (use assms(3) in \<open>simp_all add: do_read_def do_handshake_def after_handshake_def
  finished_write_def stream_laws\<close>)

lemma run_closes:
  "session_run B ops s tr s' \<Longrightarrow> beast_laws B \<Longrightarrow> \<forall>x \<in> set (written s). snd x = closes B (fst x) \<Longrightarrow>
     \<forall>x \<in> set (written s'). snd x = closes B (fst x)"
proof (induction rule: session_run.induct)
  case (step s tr s1 g ev s2 g2)
  then show ?case using step_closes [OF step.hyps(2)] by blast
qed simp

text \<open>What an armed operation can lead to: every completion has exactly one outcome.\<close>

lemma step_deterministic:
  assumes "session_step B ops s g ev r" and "session_step B ops s g ev r'"
  shows "r = r'"
  using assms by (auto simp: session_step_iff)

text \<open>A reply that does not end the connection is followed by the next read.\<close>

lemma next_read:
  assumes "pending s = PendingWrite False" and "session_step B ops s g (WriteDone False) (Inr (s', g'))"
  shows "pending s' = PendingRead \<and> sess_req s' = empty_request \<and> sess_res s' = empty_response \<and>
    written s' = written s \<and> shut s' = shut s"
  using assms by (auto simp: session_step_iff finished_write_def do_read_def stream_laws Let_def)

lemma last_write:
  assumes "pending s = PendingWrite True" and "session_step B ops s g (WriteDone False) (Inr (s', g'))"
  shows "pending s' = Idle \<and> shut s' = Some kind \<and> written s' = written s"
  using assms by (auto simp: session_step_iff finished_write_def stream_laws)

text \<open>The stream is shut down by the completions that end the connection and by no other.\<close>

lemma write_shuts:
  assumes "session_step B ops s g (WriteDone err) (Inr (s', g'))" and "life_ok kind s"
    and "\<forall>x \<in> set (written s). snd x = closes B (fst x)"
  shows "shut s' = (if ends_stream B (map fst (written s')) (WriteDone err) then Some kind else None)"
    and "\<not> err \<Longrightarrow> \<not> closes B (last (map fst (written s'))) \<Longrightarrow> pending s' = PendingRead"
proof -
  obtain c where c: "pending s = PendingWrite c" and s': "s' = finished_write ops c err (s\<lparr>pending := Idle\<rparr>)"
    using assms(1) by (auto simp: session_step_iff)
  then have "written s \<noteq> []" "last (written s) = (sess_res s, c)" "shut s = None"
    using assms(2) by (auto simp: life_ok_def)
  moreover from this have "c \<longleftrightarrow> closes B (sess_res s)" using assms(3) last_in_set by fastforce
  ultimately show "shut s' = (if ends_stream B (map fst (written s')) (WriteDone err) then Some kind else None)"
    "\<not> err \<Longrightarrow> \<not> closes B (last (map fst (written s'))) \<Longrightarrow> pending s' = PendingRead"
    by (cases err; auto simp: s' finished_write_def do_read_def stream_laws last_map)+
qed

lemma step_shuts:
  assumes "session_step B ops s g ev (Inr (s', g'))" and "life_ok kind s"
    and "\<forall>x \<in> set (written s). snd x = closes B (fst x)"
  shows "shut s' = (if ends_stream B (map fst (written s')) ev then Some kind else None)"
proof -
  have open_stream: "shut s = None" using assms(1,2) by (auto simp: session_step_iff life_ok_def)
  show ?thesis
    using assms(1)
  proof (cases rule: session_step.cases)
    case (read_done err request E)
    show ?thesis
      using read_done(2) [symmetric]
    proof (cases rule: on_read_cases)
      case (reply r n c)
      then have "err \<noteq> Some EndOfStream" by auto
      with reply open_stream show ?thesis by (cases "(B, map fst (written s'), ev)" rule: ends_stream.cases) (auto simp: read_done(1))
    qed (use open_stream in \<open>simp_all add: read_done(1)\<close>)
  next
    case (write_done c err)
    show ?thesis unfolding write_done(1) by (rule write_shuts [OF assms(1) [unfolded write_done(1)] assms(2,3)])
  qed (use open_stream in \<open>auto simp: do_read_def do_handshake_def after_handshake_def stream_laws\<close>)
qed

lemma run_shuts:
  assumes "session_run B ops s tr s'" and "beast_laws B" and "life_ok kind s" and "shut s = None"
    and "\<forall>x \<in> set (written s). snd x = closes B (fst x)"
  shows "shut s' = (if ended B (map snd tr) (map fst (written s')) then Some kind else None)"
  using assms(1)
proof (cases rule: session_run.cases)
  case done_nil
  with assms(4) show ?thesis by (simp add: ended_def)
next
  case (step tr' s1 g ev g2)
  from step_shuts [OF step(3) life_ok_run [OF step(2) assms(3)] run_closes [OF step(2) assms(2,5)]] show ?thesis
    by (simp add: ended_def step(1))
qed

lemma run_reads_on:
  assumes "session_run B ops s tr s'" and "beast_laws B" and "life_ok kind s"
    and "\<forall>x \<in> set (written s). snd x = closes B (fst x)" and "tr \<noteq> []" and "snd (last tr) = WriteDone False"
    and "\<not> closes B (last (map fst (written s')))"
  shows "pending s' = PendingRead"
  using assms(1)
proof (cases rule: session_run.cases)
  case done_nil
  with assms(5) show ?thesis by simp
next
  case (step tr' s1 g ev g2)
  then have "session_step B ops s1 g (WriteDone False) (Inr (s', g2))" using assms(6) by simp
  from write_shuts(2) [OF this life_ok_run [OF step(2) assms(3)] run_closes [OF step(2) assms(2,4)]] assms(7)
  show ?thesis by simp
qed

end

interpretation tcp: session_stream tcp_ops ShutdownBoth
  by unfold_locales (simp_all add: tcp_ops_def)

interpretation ssl: session_stream ssl_ops ShutdownSend
  by unfold_locales (simp_all add: ssl_ops_def)

section \<open>Both kinds of session\<close>

datatype transport = TCP | SSL

fun ops_of :: "transport \<Rightarrow> stream_ops" where
  "ops_of TCP = tcp_ops"
| "ops_of SSL = ssl_ops"

fun kind_of :: "transport \<Rightarrow> shutdown_type" where
  "kind_of TCP = ShutdownBoth"
| "kind_of SSL = ShutdownSend"

fun started :: "transport \<Rightarrow> nginx_config \<Rightarrow> (string \<times> handler) list \<Rightarrow> session" where
  "started TCP c table = startTCP (sessionTCP c table)"
| "started SSL c table = startSSL (sessionSSL c table)"

lemma stream_of: "session_stream (ops_of t) (kind_of t)"
  by (cases t) (simp_all add: tcp.session_stream_axioms ssl.session_stream_axioms)

lemma started_sel [simp]:
  "urlToHandler (started t c table) = table" "written (started t c table) = []" "shut (started t c table) = None"
  by (cases t; simp add: startTCP_def sessionTCP_def startSSL_def sessionSSL_def new_session_def)+

lemma started_ok: "life_ok k (started t c table)"
  by (cases t) (simp_all add: life_ok_def startTCP_def sessionTCP_def startSSL_def sessionSSL_def new_session_def)

text \<open>What is sent for the response of a handler: the session adds the field \<open>Connection\<close>.\<close>

definition sent :: "beast \<Rightarrow> handler \<Rightarrow> http_response \<Rightarrow> http_response" where
  "sent B h r = r\<lparr>res_fields := set_field B ''Connection''
     (if keep_alive (base_of h) then ''keep-alive'' else ''close'') (res_fields r)\<rparr>"

lemma read_sends:
  assumes "pending s = PendingRead"
    and "find_handler (oob E) (urlToHandler s) (req_target request) = Inr (u, Some h)"
    and "handle_request B E g h request = Inr r"
  shows "\<exists>s2. session_step B (ops_of t) s g (ReadDone None request E)
      (Inr (s2, record_url (record_time E) request r g)) \<and>
    written s2 = written s @ [(sent B h r, closes B (sent B h r))] \<and>
    pending s2 = PendingWrite (closes B (sent B h r)) \<and> sess_res s2 = sent B h r"
proof -
  let ?s2 = "s\<lparr>sess_req := request, session_name := session_name s @ name_suffix (Inr (u, Some h)),
    sess_res := sent B h r, pending := PendingWrite (closes B (sent B h r)),
    written := written s @ [(sent B h r, closes B (sent B h r))]\<rparr>"
  have "response_for B E (urlToHandler s) request g = Inr (sent B h r, record_url (record_time E) request r g)"
    using assms(2,3) by (simp add: response_for_def get_response_def sent_def)
  then have "on_read B E (ops_of t) None (s\<lparr>pending := Idle, sess_req := request\<rparr>) g =
      Inr (?s2, record_url (record_time E) request r g)"
    using assms(2)
    by (simp add: on_read_def construct_response_eq session_stream.arm_write [OF stream_of] closes_def Let_def)
  with session_step.read_done [OF assms(1), of B "ops_of t" g None request E] show ?thesis
    by (intro exI [of _ ?s2]) simp
qed

lemma keep_alive_open:
  assumes "beast_laws B" and "framed B r"
  shows "\<not> closes B (r\<lparr>res_fields := set_field B ''Connection'' ''keep-alive'' (res_fields r)\<rparr>)"
  using assms keep_alive_needs_no_eof [OF assms(1), of "r\<lparr>res_fields := set_field B ''Connection'' ''keep-alive'' (res_fields r)\<rparr>"]
  by (simp add: closes_def framed_def find_set)

section \<open>Properties\<close>

text \<open>Fixtures the properties are tried on.\<close>

definition demo_env :: env where
  "demo_env = \<lparr>env_fs = demo_fs, env_gzip = (\<lambda>l. rev), env_replace = ref_replace, env_net = demo_network,
     status_time = ''t'', record_time = ''t'', oob = (\<lambda>i. ch_slash), log_copy = None\<rparr>"

definition demo_globals :: globals where
  "demo_globals = new_globals\<lparr>core := init_logger new_log_core\<rparr>"

definition demo_table :: "(string \<times> handler) list" where
  "demo_table = [(''/echo'', Echo \<lparr>handler_name = ''Echo'', keep_alive = True, echo_prefix = ''/echo''\<rparr>)]"

definition demo_trace :: "(globals \<times> event) list" where
  "demo_trace = [(demo_globals, Dispatched),
     (demo_globals, ReadDone None (empty_request\<lparr>req_target := ''/x''\<rparr>) demo_env)]"

lemma demo_unrouted: "find_handler (oob demo_env) demo_table ''/x'' = Inr ([], None)"
  by code_simp

lemma demo_run: "\<exists>s. session_run ref_beast (ops_of TCP) (started TCP c demo_table) demo_trace s"
proof -
  let ?s0 = "started TCP c demo_table"
  let ?s1 = "do_read tcp_ops (?s0\<lparr>pending := Idle\<rparr>)"
  let ?req = "empty_request\<lparr>req_target := ''/x''\<rparr>"
  have step0: "session_step ref_beast (ops_of TCP) ?s0 demo_globals Dispatched (Inr (?s1, demo_globals))"
    using session_step.start_read [of ?s0 ref_beast tcp_ops demo_globals] by (simp add: startTCP_def)
  have p1: "pending ?s1 = PendingRead" by (simp add: do_read_def tcp_ops_def)
  have "response_for ref_beast demo_env demo_table ?req demo_globals = Inr (not_found_error ref_beast, demo_globals)"
    by (simp add: response_for_def demo_unrouted)
  moreover have "urlToHandler ?s1 = demo_table" by (simp add: do_read_def tcp_ops_def startTCP_def sessionTCP_def new_session_def)
  ultimately obtain s where
    "on_read ref_beast demo_env tcp_ops None (?s1\<lparr>pending := Idle, sess_req := ?req\<rparr>) demo_globals = Inr (s, demo_globals)"
    by (simp add: on_read_def construct_response_eq Let_def)
  then have step1: "session_step ref_beast (ops_of TCP) ?s1 demo_globals (ReadDone None ?req demo_env) (Inr (s, demo_globals))"
    using session_step.read_done [OF p1, of ref_beast tcp_ops demo_globals None ?req demo_env] by simp
  have "session_run ref_beast (ops_of TCP) ?s0 ([] @ [(demo_globals, Dispatched)]) ?s1"
    by (rule session_run.step [OF session_run.done_nil step0])
  from session_run.step [OF this step1] show ?thesis unfolding demo_trace_def by auto
qed

text \<open>
  C6: In every run of a session, over TCP or SSL: once the stream is shut down nothing is under
  way any more; a response that ends the connection is the last one handed to the stream; the
  response noted last is the one being written; and while the session waits for a request or a
  handshake no response has ended the connection and the timer of 30 seconds was set.
\<close>

theorem session_life:
  assumes "session_run B (ops_of t) (started t c table) tr s"
  shows "life_ok (kind_of t) s"
  by (rule session_stream.life_ok_run [OF stream_of assms started_ok])

theorem session_life_witness:
  "\<exists>s. session_run ref_beast (ops_of TCP) (started TCP (NginxConfig []) demo_table) demo_trace s \<and>
     life_ok (kind_of TCP) s"
  using demo_run session_life by blast

text \<open>
  C7: The responses a session hands to the stream are, in order, exactly one for every request it
  read and one \<open>400\<close> for every read that failed otherwise than by time-out or end of stream; each is
  determined by the routing table, the request and the surroundings, not by earlier requests of
  the session.
\<close>

theorem session_transcript:
  assumes "session_run B (ops_of t) (started t c table) tr s"
  shows "map fst (written s) = transcript B table tr"
  using session_stream.run_written [OF stream_of assms] by simp

theorem session_transcript_witness:
  "\<exists>s. session_run ref_beast (ops_of TCP) (started TCP (NginxConfig []) demo_table) demo_trace s \<and>
     map fst (written s) = [not_found_error ref_beast]"
proof -
  have "transcript ref_beast demo_table demo_trace = [not_found_error ref_beast]"
    by (simp add: demo_trace_def transcript_def response_for_def demo_unrouted)
  with demo_run session_transcript show ?thesis by metis
qed

text \<open>
  C20: A session shuts its stream down, in the way of its transport, exactly if the client's stream
  has ended or a response that says \<open>Connection: close\<close> or needs the end of the stream to be complete
  has just been written; after a successful write of any other response it waits for the next
  request; and no response but the last one is of the kind that ends the connection.
\<close>

theorem session_closes:
  assumes "beast_laws B" and "session_run B (ops_of t) (started t c table) tr s"
  shows "shut s = (if ended B (map snd tr) (map fst (written s)) then Some (kind_of t) else None) \<and>
    (tr \<noteq> [] \<and> snd (last tr) = WriteDone False \<and> \<not> closes B (last (map fst (written s))) \<longrightarrow>
      pending s = PendingRead) \<and>
    (\<forall>x \<in> set (written s). snd x = closes B (fst x)) \<and>
    (\<forall>x \<in> set (butlast (written s)). \<not> closes B (fst x))"
proof -
  have all: "\<forall>x \<in> set (written s). snd x = closes B (fst x)"
    using session_stream.run_closes [OF stream_of assms(2,1)] by simp
  moreover have "\<forall>x \<in> set (butlast (written s)). \<not> snd x"
    using session_stream.life_ok_run [OF stream_of assms(2) started_ok] by (simp add: life_ok_def)
  then have "\<forall>x \<in> set (butlast (written s)). \<not> closes B (fst x)" using all by (meson in_set_butlastD)
  moreover have "shut s = (if ended B (map snd tr) (map fst (written s)) then Some (kind_of t) else None)"
    by (rule session_stream.run_shuts [OF stream_of assms(2,1) started_ok]) simp_all
  moreover have "tr \<noteq> [] \<and> snd (last tr) = WriteDone False \<and> \<not> closes B (last (map fst (written s))) \<longrightarrow>
      pending s = PendingRead"
    using session_stream.run_reads_on [OF stream_of assms(2,1) started_ok] by simp
  ultimately show ?thesis by blast
qed

theorem session_closes_witness:
  "\<exists>s. session_run ref_beast (ops_of TCP) (started TCP (NginxConfig []) demo_table) demo_trace s \<and>
     shut s = None \<and> (\<forall>x \<in> set (written s). snd x = closes ref_beast (fst x))"
proof -
  obtain s where run: "session_run ref_beast (ops_of TCP) (started TCP (NginxConfig []) demo_table) demo_trace s"
    using demo_run by blast
  moreover have "\<not> ended ref_beast (map snd demo_trace) rs" for rs by (simp add: ended_def demo_trace_def)
  ultimately show ?thesis using session_closes [OF ref_beast_laws run] by auto
qed

text \<open>
  C21: A request answered by a handler with keep-alive, the proxy excepted, leaves the connection
  open: once its response is written the session waits for the next request, with request and
  response reset.
\<close>

theorem session_keep_alive:
  assumes "beast_laws B" and "pending s = PendingRead"
    and "find_handler (oob E) (urlToHandler s) (req_target request) = Inr (u, Some h)"
    and "keep_alive (base_of h)" and "\<forall>p. h \<noteq> Proxy p" and "handle_request B E g h request = Inr r"
  shows "\<exists>s1 s2 g1. session_step B (ops_of t) s g (ReadDone None request E) (Inr (s1, g1)) \<and>
    session_step B (ops_of t) s1 g1 (WriteDone False) (Inr (s2, g1)) \<and>
    pending s2 = PendingRead \<and> sess_req s2 = empty_request \<and> sess_res s2 = empty_response \<and>
    written s2 = written s @
      [(sent B h r, False)]"
proof -
  have "\<not> closes B (sent B h r)"
    using keep_alive_open [OF assms(1) handle_request_framed [OF assms(1,6,5)]] assms(4) by (simp add: sent_def)
  then obtain s1 g1 where step: "session_step B (ops_of t) s g (ReadDone None request E) (Inr (s1, g1))"
    and s1: "written s1 = written s @ [(sent B h r, False)]" "pending s1 = PendingWrite False"
    using read_sends [OF assms(2,3,6), of t] by auto
  let ?s2 = "finished_write (ops_of t) False False (s1\<lparr>pending := Idle\<rparr>)"
  have next_step: "session_step B (ops_of t) s1 g1 (WriteDone False) (Inr (?s2, g1))"
    by (rule session_step.write_done) (rule s1)
  from session_stream.next_read [OF stream_of s1(2) next_step] step next_step s1(1) show ?thesis
    by (intro exI [of _ s1] exI [of _ ?s2] exI [of _ g1]) simp
qed

theorem session_keep_alive_witness:
  "\<exists>s1 s2 g1.
     session_step ref_beast (ops_of TCP) (started TCP (NginxConfig []) demo_table\<lparr>pending := PendingRead\<rparr>)
       demo_globals (ReadDone None (empty_request\<lparr>req_target := ''/echo''\<rparr>) demo_env) (Inr (s1, g1)) \<and>
     session_step ref_beast (ops_of TCP) s1 g1 (WriteDone False) (Inr (s2, g1)) \<and> pending s2 = PendingRead"
proof -
  have "find_handler (oob demo_env) demo_table ''/echo'' = Inr (''/echo'', Some (snd (hd demo_table)))"
    by code_simp
  then show ?thesis
    using session_keep_alive [OF ref_beast_laws,
        of "started TCP (NginxConfig []) demo_table\<lparr>pending := PendingRead\<rparr>" demo_env
          "empty_request\<lparr>req_target := ''/echo''\<rparr>" "''/echo''" "snd (hd demo_table)" demo_globals
          "Echo_handle_request ref_beast (empty_request\<lparr>req_target := ''/echo''\<rparr>)" TCP]
    by (auto simp: demo_table_def startTCP_def sessionTCP_def new_session_def base_handler.truncate_def)
qed

end
