(* ===== verification/Server.thy ===== *)
theory Server
  imports Session Parser
begin

text \<open>
  The server (\<open>include/server.h\<close>, \<open>src/server.cc\<close>) and the program's \<open>main\<close>: certificates,
  acceptors, the table of handlers built from the configuration, and the event loop, in which
  the accept callbacks and the callbacks of all sessions interleave. A callback runs as one step;
  the parameters \<open>socket_api\<close> and \<open>cert_store\<close> stand for the sockets and for the file system and
  OpenSSL as the certificate loader sees them.
\<close>

section \<open>Certificates\<close>

text \<open>
  \<open>cs_use\<close> tells whether the calls on the SSL context accept certificate and key; a file that
  does not open reads as empty.
\<close>

record cert_store =
  cs_exists :: "string \<Rightarrow> bool res"
  cs_regular :: "string \<Rightarrow> bool res"
  cs_read :: "string \<Rightarrow> string"
  cs_use :: "string \<Rightarrow> string \<Rightarrow> bool"

definition regular_file :: "cert_store \<Rightarrow> string \<Rightarrow> bool res" where
  "regular_file cs path =
     rbind (cs_exists cs path) (\<lambda>present. if present then cs_regular cs path else Inr False)"

definition load_server_certificate :: "cert_store \<Rightarrow> nginx_config \<Rightarrow> bool res" where
  "load_server_certificate cs config =
     rbind (get_str config ''certificate'') (\<lambda>cert_path.
     rbind (get_str config ''privateKey'') (\<lambda>key_path.
       if cert_path = [] then Inr False
       else if key_path = [] then Inr False
       else
         rbind (regular_file cs cert_path) (\<lambda>cert_ok.
           if \<not> cert_ok then Inr False
           else
             rbind (regular_file cs key_path) (\<lambda>key_ok.
               if \<not> key_ok then Inr False
               else
                 (let cert_content = cs_read cs cert_path;
                      key_content = cs_read cs key_path
                  in if cs_use cs cert_content key_content then Inr True else Inr False)))))"

section \<open>Acceptors\<close>

record socket_api =
  open_fails :: "16 word \<Rightarrow> bool"
  reuse_fails :: "16 word \<Rightarrow> bool"
  bind_fails :: "16 word \<Rightarrow> bool"
  listen_fails :: "16 word \<Rightarrow> bool"

text \<open>\<open>accepting\<close>: an \<open>async_accept\<close> is under way.\<close>

record acceptor =
  is_open :: bool
  bound_port :: "16 word option"
  listening :: bool
  accepting :: bool

definition new_acceptor :: acceptor where
  "new_acceptor = \<lparr>is_open = False, bound_port = None, listening = False, accepting = False\<rparr>"

definition bind_acceptor :: "socket_api \<Rightarrow> acceptor \<Rightarrow> 16 word \<Rightarrow> bool \<times> acceptor" where
  "bind_acceptor api acc p =
     (if open_fails api p then (False, acc)
      else
        (let acc = acc\<lparr>is_open := True\<rparr> in
         if reuse_fails api p then (False, acc)
         else if bind_fails api p then (False, acc)
         else
           (let acc = acc\<lparr>bound_port := Some p\<rparr> in
            if listen_fails api p then (False, acc)
            else (True, acc\<lparr>listening := True\<rparr>))))"

text \<open>\<open>local_endpoint().port()\<close>: throws on a socket that was never opened.\<close>

definition local_port :: "acceptor \<Rightarrow> (16 word) res" where
  "local_port acc =
     (if is_open acc then Inr (case bound_port acc of Some p \<Rightarrow> p | None \<Rightarrow> 0)
      else Inl (SystemError ''Bad file descriptor''))"

section \<open>Handlers from the configuration\<close>

definition create_handler :: "string \<Rightarrow> string \<Rightarrow> nginx_config \<Rightarrow> handler option res" where
  "create_handler url_prefix hname subconfig =
     (if hname = ''EchoHandler''
      then rbind (EchoHandler url_prefix subconfig) (\<lambda>h. Inr (Some (Echo h)))
      else if hname = ''StaticHandler''
      then rbind (FileHandler url_prefix subconfig) (\<lambda>h. Inr (Some (File h)))
      else if hname = ''NotFoundHandler''
      then Inr (Some (NotFound (NotFoundHandler url_prefix subconfig)))
      else if hname = ''ProxyRequestHandler''
      then Inr (Some (Proxy (ProxyRequestHandler url_prefix subconfig)))
      else if hname = ''StatusHandler''
      then Inr (Some (Status (StatusHandler url_prefix subconfig)))
      else if hname = ''SleepEchoHandler''
      then rbind (SleepEchoHandler url_prefix subconfig) (\<lambda>h. Inr (Some (SleepEcho h)))
      else if hname = ''HealthHandler''
      then Inr (Some (Health (HealthHandler url_prefix subconfig)))
      else if hname = ''CompressedFileHandler''
      then rbind (CompressedFileHandler url_prefix subconfig) (\<lambda>h. Inr (Some (CompressedFile h)))
      else Inr None)"

text \<open>
  The URL of a location: \<open>url_prefix[url_prefix.size() - 1]\<close> of the empty string is read at the
  largest \<open>size_t\<close>.
\<close>

definition normalize_url :: "(nat \<Rightarrow> char) \<Rightarrow> string \<Rightarrow> string" where
  "normalize_url out_of_bounds url_prefix =
     (let url_prefix =
            (if char_at out_of_bounds url_prefix (size_minus_1 url_prefix) = ch_slash \<and>
                url_prefix \<noteq> [ch_slash]
             then take (size_minus_1 url_prefix) url_prefix else url_prefix)
      in if length url_prefix > 0 \<and> url_prefix ! 0 \<noteq> ch_slash then ch_slash # url_prefix
         else url_prefix)"

fun create_all_loop ::
  "(nat \<Rightarrow> char) \<Rightarrow> nginx_statement list \<Rightarrow> (string \<times> handler) list \<Rightarrow> globals \<Rightarrow>
     ((string \<times> handler) list \<times> globals) res" where
  "create_all_loop out_of_bounds [] table g = Inr (table, g)"
| "create_all_loop out_of_bounds (statement # sts) table g =
     (let ts = tokens statement in
      if length ts > 0 \<and> ts ! 0 = ''location'' then
        if length ts \<noteq> 3 then create_all_loop out_of_bounds sts table g
        else
          (let url_prefix = normalize_url out_of_bounds (ts ! 1);
               hname = ts ! 2
           in case child_block statement of
                None \<Rightarrow> Inl NullDeref
              | Some child \<Rightarrow>
                  rbind (create_handler url_prefix hname child) (\<lambda>s.
                    case s of
                      None \<Rightarrow> create_all_loop out_of_bounds sts table g
                    | Some h \<Rightarrow>
                        create_all_loop out_of_bounds sts (table @ [(url_prefix, h)])
                          (g\<lparr>urlToHandlerName := urlToHandlerName g @ [(url_prefix, hname)]\<rparr>)))
      else create_all_loop out_of_bounds sts table g)"

definition create_all_handlers ::
  "(nat \<Rightarrow> char) \<Rightarrow> nginx_config \<Rightarrow> globals \<Rightarrow> ((string \<times> handler) list \<times> globals) res" where
  "create_all_handlers out_of_bounds config g = create_all_loop out_of_bounds (statements config) [] g"

section \<open>The server object\<close>

record server =
  server_config :: nginx_config
  port :: "16 word"
  https_port :: "16 word"
  http_acceptor :: acceptor
  https_acceptor :: acceptor
  serving :: bool
  serving_https :: bool
  server_table :: "(string \<times> handler) list"

text \<open>
  The constructor. The configured number is converted to \<open>short unsigned\<close>. The two acceptors ask
  the system one after the other and can be answered differently.
\<close>

definition server_init ::
  "(nat \<Rightarrow> char) \<Rightarrow> socket_api \<Rightarrow> socket_api \<Rightarrow> nginx_config \<Rightarrow> globals \<Rightarrow> (server \<times> globals) res" where
  "server_init out_of_bounds api https_api c g =
     rbind (get_num c ''port'') (\<lambda>p.
     rbind (get_num c ''httpsPort'') (\<lambda>hp.
       let port_num = word_of_int p;
           https_num = word_of_int hp;
           (bound, acc) = bind_acceptor api new_acceptor port_num;
           (https_bound, https_acc) = bind_acceptor https_api new_acceptor https_num
       in rbind (create_all_handlers out_of_bounds c g) (\<lambda>(table, g).
            Inr (\<lparr>server_config = c, port = port_num, https_port = https_num, http_acceptor = acc,
                  https_acceptor = https_acc, serving = bound, serving_https = https_bound,
                  server_table = table\<rparr>, g))))"

definition start_accepting :: "server \<Rightarrow> server res" where
  "start_accepting s =
     (if \<not> serving s then rbind (local_port (http_acceptor s)) (\<lambda>_. Inr s)
      else Inr (s\<lparr>http_acceptor := (http_acceptor s)\<lparr>accepting := True\<rparr>\<rparr>))"

definition start_accepting_https :: "server \<Rightarrow> server res" where
  "start_accepting_https s =
     (if \<not> serving_https s then rbind (local_port (https_acceptor s)) (\<lambda>_. Inr s)
      else Inr (s\<lparr>https_acceptor := (https_acceptor s)\<lparr>accepting := True\<rparr>\<rparr>))"

section \<open>The event loop\<close>

text \<open>The server, the sessions it started, and the static state.\<close>

record world =
  srv :: server
  sessions :: "(transport \<times> session) list"
  glob :: globals

definition handle_accept :: "bool \<Rightarrow> world \<Rightarrow> world res" where
  "handle_accept err w =
     (if err then Inr w
      else
        (let s = startTCP (sessionTCP (server_config (srv w)) (server_table (srv w))) in
         rbind (start_accepting (srv w)) (\<lambda>sv. Inr (w\<lparr>srv := sv, sessions := sessions w @ [(TCP, s)]\<rparr>))))"

definition handle_accept_https :: "bool \<Rightarrow> world \<Rightarrow> world res" where
  "handle_accept_https err w =
     (if err then Inr w
      else
        (let s = startSSL (sessionSSL (server_config (srv w)) (server_table (srv w))) in
         rbind (start_accepting_https (srv w)) (\<lambda>sv. Inr (w\<lparr>srv := sv, sessions := sessions w @ [(SSL, s)]\<rparr>))))"

text \<open>The completed \<open>async_accept\<close> is no longer under way when its callback runs.\<close>

definition accepted :: "world \<Rightarrow> world" where
  "accepted w = w\<lparr>srv := (srv w)\<lparr>http_acceptor := (http_acceptor (srv w))\<lparr>accepting := False\<rparr>\<rparr>\<rparr>"

definition accepted_https :: "world \<Rightarrow> world" where
  "accepted_https w = w\<lparr>srv := (srv w)\<lparr>https_acceptor := (https_acceptor (srv w))\<lparr>accepting := False\<rparr>\<rparr>\<rparr>"

text \<open>
  Labels: an accept that completed, with or without error, or a completion for the session with
  that number. Only a listening acceptor can complete without an error. A failure is an exception
  that leaves \<open>io_context::run\<close>, after which nothing runs. A completion brings nothing the status
  handler has read: the callback is a single step here, which reads the log of the step.
\<close>

datatype label = AcceptHTTP bool | AcceptHTTPS bool | OnSession nat event

fun fresh :: "event \<Rightarrow> bool" where
  "fresh (ReadDone err request E) \<longleftrightarrow> log_copy E = None"
| "fresh ev \<longleftrightarrow> True"

inductive server_step :: "beast \<Rightarrow> world \<Rightarrow> label \<Rightarrow> world res \<Rightarrow> bool" for B where
  accept_http: "accepting (http_acceptor (srv w)) \<Longrightarrow> err \<or> listening (http_acceptor (srv w)) \<Longrightarrow>
     server_step B w (AcceptHTTP err) (handle_accept err (accepted w))"
| accept_https: "accepting (https_acceptor (srv w)) \<Longrightarrow> err \<or> listening (https_acceptor (srv w)) \<Longrightarrow>
     server_step B w (AcceptHTTPS err) (handle_accept_https err (accepted_https w))"
| on_session: "i < length (sessions w) \<Longrightarrow> sessions w ! i = (t, s) \<Longrightarrow>
     session_step B (ops_of t) s (glob w) ev r \<Longrightarrow> fresh ev \<Longrightarrow>
     server_step B w (OnSession i ev)
       (rbind r (\<lambda>(s', g'). Inr (w\<lparr>sessions := (sessions w)[i := (t, s')], glob := g'\<rparr>)))"

inductive server_run :: "beast \<Rightarrow> world \<Rightarrow> label list \<Rightarrow> world \<Rightarrow> bool" for B where
  run_nil: "server_run B w [] w"
| run_step: "server_run B w ls w1 \<Longrightarrow> server_step B w1 l (Inr w2) \<Longrightarrow> server_run B w (ls @ [l]) w2"

section \<open>Signals\<close>

definition SIGINT :: int where
  "SIGINT = 2"

definition server_sigint :: "int \<Rightarrow> int" where
  "server_sigint s = 130"

definition register_server_sigint :: "globals \<Rightarrow> globals" where
  "register_server_sigint g = g\<lparr>sig_actions := (sig_actions g)(SIGINT := Some server_sigint)\<rparr>"

text \<open>A signal for which a handler is installed; \<open>None\<close> stands for the default action.\<close>

definition deliver_signal :: "globals \<Rightarrow> int \<Rightarrow> int option" where
  "deliver_signal g s = map_option (\<lambda>act. act s) (sig_actions g s)"

section \<open>Starting the program\<close>

text \<open>The event loop begins to run, or the exception was logged and \<open>serve_forever\<close> returns.\<close>

datatype serve_result = Running world | Caught cpp_error

text \<open>The body of the \<open>try\<close> block up to \<open>io_context->run()\<close>.\<close>

definition start_server ::
  "(nat \<Rightarrow> char) \<Rightarrow> socket_api \<Rightarrow> socket_api \<Rightarrow> nginx_config \<Rightarrow> globals \<Rightarrow> bool \<Rightarrow> world res" where
  "start_server out_of_bounds api https_api config g loaded_certs =
     rbind (server_init out_of_bounds api https_api config g) (\<lambda>(s, g).
       let s = s\<lparr>serving_https := loaded_certs\<rparr> in
       rbind (start_accepting s) (\<lambda>s.
         rbind (start_accepting_https s) (\<lambda>s. Inr \<lparr>srv = s, sessions = [], glob = g\<rparr>)))"

definition serve_forever ::
  "(nat \<Rightarrow> char) \<Rightarrow> cert_store \<Rightarrow> socket_api \<Rightarrow> socket_api \<Rightarrow> nginx_config \<Rightarrow> globals \<Rightarrow> serve_result res" where
  "serve_forever out_of_bounds cs api https_api config g =
     (let g = register_server_sigint g in
      rbind (load_server_certificate cs config) (\<lambda>loaded_certs.
        case start_server out_of_bounds api https_api config g loaded_certs of
          Inl e \<Rightarrow> if is_exception e then Inr (Caught e) else Inl e
        | Inr w \<Rightarrow> Inr (Running w)))"

definition main_program ::
  "(string \<Rightarrow> string option) \<Rightarrow> (nat \<Rightarrow> char) \<Rightarrow> cert_store \<Rightarrow> socket_api \<Rightarrow> socket_api \<Rightarrow>
     int \<Rightarrow> string list \<Rightarrow> serve_result outcome res" where
  "main_program open_file out_of_bounds cs api https_api argc argv =
     (let g = new_globals\<lparr>core := init_logger (core new_globals)\<rparr> in
      rbind (parse_args open_file argc argv (Some (NginxConfig []))) (\<lambda>parsed.
       case parsed of
         Exited n \<Rightarrow> Inr (Exited n)
       | Returned (_, _, None) \<Rightarrow> Inl NullDeref
       | Returned (_, _, Some config) \<Rightarrow>
           rbind (serve_forever out_of_bounds cs api https_api config g) (\<lambda>r. Inr (Returned r))))"

end
