(* ===== verification/Server_Invariants.thy ===== *)
theory Server_Invariants
  imports Server
begin

text \<open>
  Lemmas on the server: the URLs and handlers that come out of a configuration, the invariant of
  the event loop with its preservation by every callback of every session, what can still throw,
  and what the log of requests holds.
\<close>

section \<open>URLs\<close>

lemma size_minus_1_nonempty:
  assumes "s \<noteq> []" and "length s < 2 ^ 64"
  shows "size_minus_1 s = length s - 1"
proof -
  obtain k where k: "length s = Suc k" using assms(1) by (cases s) auto
  have "size_minus_1 s = (k + 2 ^ 64) mod 2 ^ 64" by (simp add: size_minus_1_def k)
  also have "\<dots> = k" using assms(2) k by (simp add: mod_add_self2)
  finally show ?thesis by (simp add: k)
qed

text \<open>The intended URL: one trailing slash off, a leading slash on; \<open>oob\<close> has no influence.\<close>

definition clean_url :: "string \<Rightarrow> string" where
  "clean_url p =
     (let q = (if p = [ch_slash] then p else drop_trailing_slash p)
      in if q \<noteq> [] \<and> hd q \<noteq> ch_slash then ch_slash # q else q)"

lemma normalize_url_eq:
  assumes "length p < 2 ^ 64"
  shows "normalize_url f p = clean_url p"
proof (cases "p = []")
  case True
  then show ?thesis by (simp add: normalize_url_def clean_url_def drop_trailing_slash_def)
next
  case False
  then have size: "size_minus_1 p = length p - 1" using assms by (rule size_minus_1_nonempty)
  have "char_at f p (length p - 1) = p ! (length p - 1)" using False by (simp add: char_at_def)
  then have "(if char_at f p (size_minus_1 p) = ch_slash \<and> p \<noteq> [ch_slash] then take (size_minus_1 p) p else p) =
      (if p = [ch_slash] then p else drop_trailing_slash p)"
    using False by (simp add: size drop_trailing_slash_def)
  then show ?thesis
    unfolding normalize_url_def clean_url_def Let_def
    by (simp only: length_greater_0_conv) (simp add: hd_conv_nth cong: conj_cong)
qed

lemma clean_url_slash: "clean_url p = [] \<or> hd (clean_url p) = ch_slash"
  by (auto simp: clean_url_def Let_def)

section \<open>The table of handlers\<close>

text \<open>
  A handler that keeps a prefix was given the URL it is registered under; the file handlers and the
  proxy, which cut it off targets, keep it without the slash at its end.
\<close>

fun prefix_agrees :: "string \<Rightarrow> handler \<Rightarrow> bool" where
  "prefix_agrees u (File h) \<longleftrightarrow> files_prefix h = drop_trailing_slash u"
| "prefix_agrees u (CompressedFile h) \<longleftrightarrow> files_prefix h = drop_trailing_slash u"
| "prefix_agrees u (Proxy h) \<longleftrightarrow> proxy_prefix h = drop_trailing_slash u"
| "prefix_agrees u (Echo h) \<longleftrightarrow> get_url_prefix h = u"
| "prefix_agrees u (SleepEcho h) \<longleftrightarrow> get_url_prefix h = u"
| "prefix_agrees u _ \<longleftrightarrow> True"

definition table_ok :: "(string \<times> handler) list \<Rightarrow> bool" where
  "table_ok table \<longleftrightarrow> (\<forall>(u, h) \<in> set table. prefix_agrees u h)"

lemma FileHandler_prefix: "FileHandler u c = Inr h \<Longrightarrow> files_prefix h = drop_trailing_slash u"
  by (auto simp: FileHandler_def Let_def keep_alive_of_config split: sum.splits)

lemma EchoHandler_prefix:
  "EchoHandler u c = Inr h \<Longrightarrow> get_url_prefix h = u" "SleepEchoHandler u c = Inr h \<Longrightarrow> get_url_prefix h = u"
  by (auto simp: EchoHandler_def SleepEchoHandler_def get_url_prefix_def keep_alive_of_config rbind_eq_Inr_iff)

lemma create_handler_prefix:
  "create_handler u n c = Inr (Some h) \<Longrightarrow> prefix_agrees u h"
  by (auto simp: create_handler_def rbind_eq_Inr_iff CompressedFileHandler_def ProxyRequestHandler_def
      FileHandler_prefix EchoHandler_prefix split: if_splits prod.splits)

text \<open>The locations of a configuration, in order: URL, handler name and block.\<close>

fun location_of :: "nginx_statement \<Rightarrow> (string \<times> string \<times> nginx_config option) list" where
  "location_of (NginxConfigStatement [l, p, n] c) = (if l = ''location'' then [(p, n, c)] else [])"
| "location_of _ = []"

definition locations :: "nginx_config \<Rightarrow> (string \<times> string \<times> nginx_config option) list" where
  "locations config = concat (map location_of (statements config))"

text \<open>Creating one handler per location, with the entry it gets in the two tables.\<close>

definition location_entry ::
  "(nat \<Rightarrow> char) \<Rightarrow> string \<times> string \<times> nginx_config option \<Rightarrow> (string \<times> string \<times> handler) list res" where
  "location_entry f l =
     (case l of (p, n, c) \<Rightarrow>
        (case c of
           None \<Rightarrow> Inl NullDeref
         | Some child \<Rightarrow> rbind (create_handler (normalize_url f p) n child) (\<lambda>r.
             Inr (case r of None \<Rightarrow> [] | Some h \<Rightarrow> [(normalize_url f p, n, h)]))))"

lemma location_entry_simps [simp]:
  "location_entry f (p, n, None) = Inl NullDeref"
  "location_entry f (p, n, Some child) = rbind (create_handler (normalize_url f p) n child) (\<lambda>r.
     Inr (case r of None \<Rightarrow> [] | Some h \<Rightarrow> [(normalize_url f p, n, h)]))"
  by (simp_all add: location_entry_def)

fun collect :: "('a \<Rightarrow> 'b list res) \<Rightarrow> 'a list \<Rightarrow> 'b list res" where
  "collect f [] = Inr []"
| "collect f (x # xs) = rbind (f x) (\<lambda>ys. rbind (collect f xs) (\<lambda>zs. Inr (ys @ zs)))"

lemma location_of_other:
  "\<not> (length (tokens st) > 0 \<and> tokens st ! 0 = ''location'' \<and> length (tokens st) = 3) \<Longrightarrow> location_of st = []"
  by (cases st rule: location_of.cases) auto

lemma location_of_location:
  assumes "length (tokens st) = 3" and "tokens st ! 0 = ''location''"
  shows "location_of st = [(tokens st ! 1, tokens st ! 2, child_block st)]"
proof -
  obtain l p n where "tokens st = [l, p, n]"
    using assms(1) by (auto simp: length_Suc_conv numeral_3_eq_3)
  with assms(2) show ?thesis by (cases st) auto
qed

definition add_entries ::
  "(string \<times> string \<times> handler) list \<Rightarrow> (string \<times> handler) list \<times> globals \<Rightarrow>
     (string \<times> handler) list \<times> globals" where
  "add_entries es tg =
     (fst tg @ map (\<lambda>(u, n, h). (u, h)) es,
      (snd tg)\<lparr>urlToHandlerName := urlToHandlerName (snd tg) @ map (\<lambda>(u, n, h). (u, n)) es\<rparr>)"

lemma add_entries_simps [simp]:
  "add_entries [] (t, g) = (t, g)"
  "add_entries (es @ es') (t, g) = add_entries es' (add_entries es (t, g))"
  "add_entries [(u, n, h)] (t, g) = (t @ [(u, h)], g\<lparr>urlToHandlerName := urlToHandlerName g @ [(u, n)]\<rparr>)"
  by (simp_all add: add_entries_def)

lemma create_all_loop_eq:
  "create_all_loop f sts table g =
     rbind (collect (location_entry f) (concat (map location_of sts))) (\<lambda>es. Inr (add_entries es (table, g)))"
proof (induction sts arbitrary: table g)
  case Nil
  then show ?case by simp
next
  case (Cons st sts)
  show ?case
  proof (cases "length (tokens st) = 3 \<and> tokens st ! 0 = ''location''")
    case False
    then have "location_of st = []" by (intro location_of_other) auto
    with False Cons.IH show ?thesis by (auto simp: Let_def)
  next
    case True
    then have loc: "location_of st = [(tokens st ! 1, tokens st ! 2, child_block st)]"
      by (intro location_of_location) auto
    have "tokens st \<noteq> []" using True by auto
    note True = True this
    show ?thesis
    proof (cases "child_block st")
      case None
      with True loc show ?thesis by (simp add: Let_def)
    next
      case (Some child)
      show ?thesis
      proof (cases "create_handler (normalize_url f (tokens st ! 1)) (tokens st ! 2) child")
        case (Inl e)
        with True loc Some show ?thesis by (simp add: Let_def)
      next
        case (Inr r)
        with True loc Some Cons.IH show ?thesis
          by (cases r; cases "collect (location_entry f) (concat (map location_of sts))")
            (simp_all add: Let_def add_entries_def)
      qed
    qed
  qed
qed

lemma collect_all:
  "collect f xs = Inr zs \<Longrightarrow> (\<And>x ys. f x = Inr ys \<Longrightarrow> list_all P ys) \<Longrightarrow> list_all P zs"
  by (induction xs arbitrary: zs) (auto simp: rbind_eq_Inr_iff)

lemma create_all_table_ok:
  assumes "create_all_handlers f config g = Inr (table, g')"
  shows "table_ok table"
proof -
  obtain es where es: "collect (location_entry f) (locations config) = Inr es"
    and table: "table = map (\<lambda>(u, n, h). (u, h)) es"
    using assms
    by (auto simp: create_all_handlers_def create_all_loop_eq rbind_eq_Inr_iff locations_def add_entries_def)
  have "list_all (\<lambda>(u, n, h). prefix_agrees u h) es"
    by (rule collect_all [OF es])
      (auto simp: location_entry_def rbind_eq_Inr_iff split: prod.splits option.splits
        dest: create_handler_prefix)
  then show ?thesis by (auto simp: table_ok_def table list_all_iff)
qed

section \<open>What a request can still throw\<close>

text \<open>A file system in which, besides, whatever is there and is no directory can be read.\<close>

definition fs_readable :: "file_system \<Rightarrow> bool" where
  "fs_readable fs \<longleftrightarrow> (\<forall>p. fs_exists fs p = Inr True \<longrightarrow> fs_is_directory fs p = Inr False \<longrightarrow> fs_read fs p \<noteq> None)"

lemma handle_request_Inl:
  assumes "handle_request B E g h request = Inl e" and "prefix_agrees u h"
    and "prefix u (req_target request) \<or> u = [ch_slash]" and "fs_answers (env_fs E)" and "e \<noteq> NoReturn"
  shows "e = LengthError \<and> \<not> fs_readable (env_fs E)"
proof -
  obtain f where f: "h = File f \<or> h = CompressedFile f" using handle_request_total [OF assms(1)] assms(5) by blast
  then have "File_handle_request B (env_fs E) f request = Inl e"
    using assms(1)
    by (auto simp: CompressedFile_handle_request_def rbind_eq_Inl_iff Let_def split: if_splits)
  moreover have "length (files_prefix f) \<le> length (drop_trailing_slash (req_target request))"
    using f assms(2) drop_trailing_slash_prefix [OF assms(3)] by auto
  ultimately show ?thesis
    using File_handle_request_Inl_iff [OF assms(4), of f request B e] unfolding fs_readable_def by blast
qed

lemma response_for_Inl:
  assumes "response_for B E table request g = Inl e" and "table_ok table" and "fs_answers (env_fs E)"
    and "e \<noteq> NoReturn"
  shows "e = LengthError \<and> \<not> fs_readable (env_fs E)"
proof -
  obtain t where "strip_query (req_target request) = Inr t"
    using strip_query_total by (rule succeedsE)
  from find_handler_spec [OF this, of "oob E" table] obtain u c
    where found: "find_handler (oob E) table (req_target request) = Inr (u, c)" by blast
  with assms(1) obtain h where c: "c = Some h" and "handle_request B E g h request = Inl e"
    by (auto simp: response_for_def rbind_eq_Inl_iff get_response_def split: option.splits)
  moreover have "(prefix u (req_target request) \<or> u = [ch_slash]) \<and> (u, h) \<in> set table"
    using found c by (intro find_handler_prefix) simp
  ultimately show ?thesis
    using handle_request_Inl assms(2-4) by (auto simp: table_ok_def)
qed

lemma on_read_Inl:
  "on_read B E ops err s g = Inl e \<Longrightarrow>
     err = None \<and> response_for B E (urlToHandler s) (sess_req s) g = Inl e"
  by (auto simp: on_read_def construct_response_eq rbind_eq_Inl_iff Let_def
      split: option.splits read_error.splits)

section \<open>The invariant of the event loop\<close>

text \<open>
  The handlers agree with their URLs, an accept is under way only where the server serves, and
  every session has the server's table and leads a proper life.
\<close>

definition world_ok :: "world \<Rightarrow> bool" where
  "world_ok w \<longleftrightarrow> table_ok (server_table (srv w)) \<and>
     (accepting (http_acceptor (srv w)) \<longrightarrow> serving (srv w)) \<and>
     (accepting (https_acceptor (srv w)) \<longrightarrow> serving_https (srv w)) \<and>
     (\<forall>(t, s) \<in> set (sessions w). urlToHandler s = server_table (srv w) \<and> life_ok (kind_of t) s)"

lemma life_ok_started:
  "life_ok k (startTCP (sessionTCP c table))" "life_ok k (startSSL (sessionSSL c table))"
  "urlToHandler (startTCP (sessionTCP c table)) = table"
  "urlToHandler (startSSL (sessionSSL c table)) = table"
  by (simp_all add: life_ok_def startTCP_def sessionTCP_def startSSL_def sessionSSL_def new_session_def)

lemma start_accepting_Inr:
  "start_accepting s = Inr s' \<Longrightarrow>
     s' = (if serving s then s\<lparr>http_acceptor := (http_acceptor s)\<lparr>accepting := True\<rparr>\<rparr> else s)"
  "start_accepting_https s = Inr s' \<Longrightarrow>
     s' = (if serving_https s then s\<lparr>https_acceptor := (https_acceptor s)\<lparr>accepting := True\<rparr>\<rparr> else s)"
  by (auto simp: start_accepting_def start_accepting_https_def rbind_eq_Inr_iff)

lemma world_ok_accept:
  assumes "world_ok w" and "accepting (http_acceptor (srv w))"
  shows "\<exists>w'. handle_accept err (accepted w) = Inr w' \<and> world_ok w' \<and>
    accepting (http_acceptor (srv w')) = (\<not> err) \<and>
    accepting (https_acceptor (srv w')) = accepting (https_acceptor (srv w)) \<and>
    server_table (srv w') = server_table (srv w) \<and> glob w' = glob w"
  using assms
  by (auto simp: handle_accept_def accepted_def start_accepting_def world_ok_def life_ok_started Let_def)

lemma world_ok_accept_https:
  assumes "world_ok w" and "accepting (https_acceptor (srv w))"
  shows "\<exists>w'. handle_accept_https err (accepted_https w) = Inr w' \<and> world_ok w' \<and>
    accepting (https_acceptor (srv w')) = (\<not> err) \<and>
    accepting (http_acceptor (srv w')) = accepting (http_acceptor (srv w)) \<and>
    server_table (srv w') = server_table (srv w) \<and> glob w' = glob w"
  using assms
  by (auto simp: handle_accept_https_def accepted_https_def start_accepting_https_def world_ok_def
      life_ok_started Let_def)

lemma world_ok_session:
  assumes "world_ok w" and "i < length (sessions w)" and "sessions w ! i = (t, s)"
    and "session_step B (ops_of t) s (glob w) ev (Inr (s', g'))"
  shows "world_ok (w\<lparr>sessions := (sessions w)[i := (t, s')], glob := g'\<rparr>)"
proof -
  have "(t, s) \<in> set (sessions w)" using assms(2,3) by (metis nth_mem)
  then have "urlToHandler s = server_table (srv w)" and "life_ok (kind_of t) s"
    using assms(1) by (auto simp: world_ok_def)
  then have "urlToHandler s' = server_table (srv w) \<and> life_ok (kind_of t) s'"
    using session_stream.step_written [OF stream_of assms(4)]
      session_stream.life_ok_step [OF stream_of assms(4)] by simp
  then show ?thesis
    using assms(1) by (auto simp: world_ok_def dest!: set_update_subset_insert [THEN subsetD])
qed

lemma world_ok_step:
  assumes "server_step B w l (Inr w')" and "world_ok w"
  shows "world_ok w' \<and> server_table (srv w') = server_table (srv w)"
  using assms(1)
proof (cases rule: server_step.cases)
  case (accept_http err)
  with world_ok_accept [OF assms(2), of err] show ?thesis by auto
next
  case (accept_https err)
  with world_ok_accept_https [OF assms(2), of err] show ?thesis by auto
next
  case (on_session i t s ev r)
  then obtain s' g' where "r = Inr (s', g')" and
    "w' = w\<lparr>sessions := (sessions w)[i := (t, s')], glob := g'\<rparr>"
    by (cases r) auto
  with on_session world_ok_session [OF assms(2)] show ?thesis by auto
qed

lemma world_ok_run:
  "server_run B w ls w' \<Longrightarrow> world_ok w \<Longrightarrow> world_ok w' \<and> server_table (srv w') = server_table (srv w)"
  by (induction rule: server_run.induct) (auto dest: world_ok_step)

text \<open>An exception out of the event loop comes from a read that met an unreadable file.\<close>

lemma session_step_Inl:
  assumes "session_step B ops s g ev (Inl e)" and "table_ok (urlToHandler s)" and "e \<noteq> NoReturn"
  shows "\<exists>request E. ev = ReadDone None request E \<and>
    (fs_answers (env_fs E) \<longrightarrow> e = LengthError \<and> \<not> fs_readable (env_fs E))"
  using assms(1)
proof (cases rule: session_step.cases)
  case (read_done err request E)
  then have "err = None" and "response_for B E (urlToHandler s) request g = Inl e"
    using on_read_Inl [of B E ops err "s\<lparr>pending := Idle, sess_req := request\<rparr>" g e] by auto
  with response_for_Inl [OF _ assms(2) _ assms(3)] read_done(1) show ?thesis by blast
qed

lemma server_step_Inl:
  assumes "server_step B w l (Inl e)" and "world_ok w" and "e \<noteq> NoReturn"
  obtains i request E where "l = OnSession i (ReadDone None request E)"
    and "fs_answers (env_fs E) \<Longrightarrow> e = LengthError \<and> \<not> fs_readable (env_fs E)"
  using assms(1)
proof (cases rule: server_step.cases)
  case (accept_http err)
  with world_ok_accept [OF assms(2), of err] show ?thesis by auto
next
  case (accept_https err)
  with world_ok_accept_https [OF assms(2), of err] show ?thesis by auto
next
  case (on_session i t s ev r)
  then have "r = Inl e" by (cases r) (auto split: prod.splits)
  moreover have "(t, s) \<in> set (sessions w)" using on_session by (metis nth_mem)
  then have "table_ok (urlToHandler s)" using assms(2) by (auto simp: world_ok_def)
  ultimately show ?thesis using on_session(1,5) session_step_Inl [OF _ _ assms(3)] that by blast
qed

section \<open>The log of requests\<close>

text \<open>The targets an event adds to the log: that of a request some handler is found for.\<close>

fun routed :: "(string \<times> handler) list \<Rightarrow> event \<Rightarrow> string list" where
  "routed table (ReadDone None request E) =
     (case find_handler (oob E) table (req_target request) of
        Inr (u, Some h) \<Rightarrow> [req_target request]
      | _ \<Rightarrow> [])"
| "routed table ev = []"

fun routed_label :: "(string \<times> handler) list \<Rightarrow> label \<Rightarrow> string list" where
  "routed_label table (OnSession i ev) = routed table ev"
| "routed_label table l = []"

definition log_grows :: "globals \<Rightarrow> string list \<Rightarrow> globals \<Rightarrow> bool" where
  "log_grows g ts g' \<longleftrightarrow> map url (url_infos g') = map url (url_infos g) @ ts \<and>
     urlToHandlerName g' = urlToHandlerName g \<and> sig_actions g' = sig_actions g \<and> core g' = core g"

lemma log_grows_refl [simp]: "log_grows g [] g"
  by (simp add: log_grows_def)

lemma log_grows_trans: "log_grows g ts g' \<Longrightarrow> log_grows g' us g'' \<Longrightarrow> log_grows g (ts @ us) g''"
  by (simp add: log_grows_def)

lemma get_response_log:
  assumes "get_response B E h request g = Inr (r, g')"
  shows "log_grows g [req_target request] g'"
proof -
  have "untimed (url_infos g') = untimed (url_infos g) @ [(req_target request, res_result r)]"
    and "urlToHandlerName g' = urlToHandlerName g \<and> sig_actions g' = sig_actions g \<and> core g' = core g"
    using recorder.one_entry [of "(B, E)" h request g r g'] recorder.table_kept [of "(B, E)" h request g r g']
      assms by simp_all
  moreover have "map url is = map fst (untimed is)" for "is" by (simp add: untimed_def)
  ultimately show ?thesis by (simp add: log_grows_def)
qed

lemma response_for_log:
  assumes "response_for B E table request g = Inr (r, g')"
  shows "log_grows g (routed table (ReadDone None request E)) g'"
  using assms
  by (auto simp: response_for_def rbind_eq_Inr_iff split: option.splits dest!: get_response_log)

lemma on_read_log:
  assumes "on_read B E ops err s g = Inr (s', g')"
  shows "log_grows g (routed (urlToHandler s) (ReadDone err (sess_req s) E)) g'"
proof (cases err)
  case None
  with assms obtain r where "response_for B E (urlToHandler s) (sess_req s) g = Inr (r, g')"
    by (auto simp: on_read_def construct_response_eq rbind_eq_Inr_iff Let_def)
  from response_for_log [OF this] show ?thesis by (simp add: None)
next
  case (Some e)
  with assms have "g' = g" by (cases e) (auto simp: on_read_def)
  with Some show ?thesis by simp
qed

lemma session_step_log:
  assumes "session_step B ops s g ev (Inr (s', g'))"
  shows "log_grows g (routed (urlToHandler s) ev) g'"
  using assms
proof (cases rule: session_step.cases)
  case (read_done err request E)
  from on_read_log [OF read_done(2) [symmetric]] show ?thesis by (simp add: read_done(1))
qed simp_all

lemma server_step_log:
  assumes "server_step B w l (Inr w')" and "world_ok w"
  shows "log_grows (glob w) (routed_label (server_table (srv w)) l) (glob w')"
  using assms(1)
proof (cases rule: server_step.cases)
  case (accept_http err)
  with world_ok_accept [OF assms(2), of err] show ?thesis by auto
next
  case (accept_https err)
  with world_ok_accept_https [OF assms(2), of err] show ?thesis by auto
next
  case (on_session i t s ev r)
  then obtain s' g' where r: "r = Inr (s', g')" and "glob w' = g'"
    by (cases r) auto
  moreover have "(t, s) \<in> set (sessions w)" using on_session by (metis nth_mem)
  then have "urlToHandler s = server_table (srv w)" using assms(2) by (auto simp: world_ok_def)
  ultimately show ?thesis
    using session_step_log on_session(1,5) by fastforce
qed

lemma server_run_log:
  "server_run B w ls w' \<Longrightarrow> world_ok w \<Longrightarrow>
     log_grows (glob w) (concat (map (routed_label (server_table (srv w))) ls)) (glob w')"
proof (induction rule: server_run.induct)
  case (run_step w ls w1 l w2)
  have ok: "world_ok w1" and table: "server_table (srv w1) = server_table (srv w)"
    using world_ok_run [OF run_step.hyps(1) run_step.prems] by auto
  from log_grows_trans [OF run_step.IH [OF run_step.prems] server_step_log [OF run_step.hyps(2) ok]] table
  show ?case by simp
qed simp

section \<open>Accepting connections\<close>

text \<open>The HTTP accept loop goes on until an accept fails, and never after.\<close>

lemma accepting_step:
  assumes "server_step B w l (Inr w')" and "world_ok w"
  shows "accepting (http_acceptor (srv w')) =
    (accepting (http_acceptor (srv w)) \<and> l \<noteq> AcceptHTTP True)"
  using assms(1)
proof (cases rule: server_step.cases)
  case (accept_http err)
  with world_ok_accept [OF assms(2), of err] show ?thesis by auto
next
  case (accept_https err)
  with world_ok_accept_https [OF assms(2), of err] show ?thesis by auto
next
  case (on_session i t s ev r)
  then have "srv w' = srv w" by (cases r) auto
  with on_session show ?thesis by simp
qed

lemma accepting_run:
  "server_run B w ls w' \<Longrightarrow> world_ok w \<Longrightarrow>
     accepting (http_acceptor (srv w')) =
       (accepting (http_acceptor (srv w)) \<and> AcceptHTTP True \<notin> set ls)"
proof (induction rule: server_run.induct)
  case (run_step w ls w1 l w2)
  have "world_ok w1" using world_ok_run [OF run_step.hyps(1) run_step.prems] by simp
  from accepting_step [OF run_step.hyps(2) this] run_step.IH [OF run_step.prems] show ?case by auto
qed simp

section \<open>Starting up\<close>

lemma bind_acceptor_result:
  "bind_acceptor api new_acceptor p = (ok, acc) \<Longrightarrow>
     ok = listening acc \<and> \<not> accepting acc \<and> is_open acc = (\<not> open_fails api p) \<and>
     (ok \<longrightarrow> bound_port acc = Some p)"
  by (auto simp: bind_acceptor_def new_acceptor_def Let_def split: if_splits)

lemma server_init_Inr:
  assumes "server_init f api https_api c g = Inr (s, g')"
  shows "\<exists>p hp. get_num c ''port'' = Inr p \<and> get_num c ''httpsPort'' = Inr hp \<and>
    port s = word_of_int p \<and> https_port s = word_of_int hp \<and>
    bind_acceptor api new_acceptor (port s) = (serving s, http_acceptor s) \<and>
    bind_acceptor https_api new_acceptor (https_port s) = (serving_https s, https_acceptor s) \<and>
    create_all_handlers f c g = Inr (server_table s, g') \<and> server_config s = c"
  using assms
  by (auto simp: server_init_def rbind_eq_Inr_iff Let_def case_prod_unfold)

lemma serve_forever_start:
  assumes "serve_forever f cs api https_api c g = Inr (Running w)"
  shows "\<exists>loaded. load_server_certificate cs c = Inr loaded \<and> start_server f api https_api c (register_server_sigint g) loaded = Inr w"
proof -
  obtain loaded where loaded: "load_server_certificate cs c = Inr loaded"
    using assms by (auto simp: serve_forever_def rbind_eq_Inr_iff)
  with assms show ?thesis
    by (cases "start_server f api https_api c (register_server_sigint g) loaded") (auto simp: serve_forever_def split: if_splits)
qed

text \<open>The server as \<open>serve_forever\<close> leaves it to the event loop.\<close>

lemma serve_forever_Running:
  assumes "serve_forever f cs api https_api c g = Inr (Running w)"
  shows "\<exists>loaded s g'. load_server_certificate cs c = Inr loaded \<and>
    server_init f api https_api c (register_server_sigint g) = Inr (s, g') \<and>
    accepting (http_acceptor (srv w)) = serving s \<and> serving (srv w) = serving s \<and>
    listening (http_acceptor (srv w)) = serving s \<and>
    accepting (https_acceptor (srv w)) = loaded \<and> serving_https (srv w) = loaded \<and>
    listening (https_acceptor (srv w)) = serving_https s \<and>
    server_table (srv w) = server_table s \<and> port (srv w) = port s \<and> sessions w = [] \<and> glob w = g'"
proof -
  obtain loaded s g' s1 s2 where load: "load_server_certificate cs c = Inr loaded"
    and init: "server_init f api https_api c (register_server_sigint g) = Inr (s, g')"
    and s1: "start_accepting (s\<lparr>serving_https := loaded\<rparr>) = Inr s1"
    and s2: "start_accepting_https s1 = Inr s2" and w: "w = \<lparr>srv = s2, sessions = [], glob = g'\<rparr>"
    using assms
    by (auto dest!: serve_forever_start simp: start_server_def rbind_eq_Inr_iff Let_def)
  have "listening (http_acceptor s) = serving s" "\<not> accepting (http_acceptor s)"
    "listening (https_acceptor s) = serving_https s" "\<not> accepting (https_acceptor s)"
    using server_init_Inr [OF init] by (auto dest!: bind_acceptor_result)
  with load init w start_accepting_Inr(1) [OF s1] start_accepting_Inr(2) [OF s2] show ?thesis
    by (cases loaded; cases "serving s") auto
qed

lemma serve_forever_ok:
  assumes "serve_forever f cs api https_api c g = Inr (Running w)"
  shows "world_ok w"
proof -
  obtain loaded s g' where init: "server_init f api https_api c (register_server_sigint g) = Inr (s, g')"
    and "accepting (http_acceptor (srv w)) = serving s" "serving (srv w) = serving s"
    and "accepting (https_acceptor (srv w)) = loaded" "serving_https (srv w) = loaded"
    and "server_table (srv w) = server_table s" "sessions w = []"
    using serve_forever_Running [OF assms] by blast
  moreover have "table_ok (server_table s)"
    using server_init_Inr [OF init] by (blast intro: create_all_table_ok)
  ultimately show ?thesis by (simp add: world_ok_def)
qed

text \<open>A configuration can make the creation of handlers fail in one way only.\<close>

lemma get_num_Inl: "get_num c field = Inl e \<Longrightarrow> e = NullDeref"
proof -
  assume *: "get_num c field = Inl e"
  then have "get_str c field = Inl e"
    by (cases "get_str c field") (simp add: get_num_def, simp add: get_num_eq)
  then show ?thesis by (auto dest: get_str_Inl)
qed

lemma create_handler_Inl: "create_handler u n c = Inl e \<Longrightarrow> e = NullDeref"
  by (auto simp: create_handler_def EchoHandler_def SleepEchoHandler_def FileHandler_def CompressedFileHandler_def
      set_keep_alive_from_config_def rbind_eq_Inl_iff Let_def dest: get_num_Inl split: if_splits)

lemma collect_Inl:
  assumes "x \<in> set xs" and "f x = Inl d" and "\<And>y e. f y = Inl e \<Longrightarrow> e = d"
  shows "collect f xs = Inl d"
  using assms(1)
proof (induction xs)
  case (Cons y ys)
  show ?case
  proof (cases "f y")
    case (Inl e)
    with assms(3) show ?thesis by auto
  next
    case (Inr zs)
    with Cons assms(2) show ?thesis by auto
  qed
qed simp

lemma location_entry_Inl: "location_entry f l = Inl e \<Longrightarrow> e = NullDeref"
  by (cases l rule: prod_cases3)
    (auto simp: location_entry_def rbind_eq_Inl_iff dest: create_handler_Inl split: option.splits)

section \<open>Certificates\<close>

text \<open>A store whose status queries answer.\<close>

definition cs_answers :: "cert_store \<Rightarrow> bool" where
  "cs_answers cs \<longleftrightarrow> (\<forall>p. succeeds (cs_exists cs p) \<and> succeeds (cs_regular cs p))"

lemma regular_file_eq:
  assumes "cs_answers cs"
  shows "regular_file cs p = Inr (cs_exists cs p = Inr True \<and> cs_regular cs p = Inr True)"
proof -
  obtain a b where "cs_exists cs p = Inr a" "cs_regular cs p = Inr b"
    using assms unfolding cs_answers_def succeeds_iff by meson
  then show ?thesis by (cases a; cases b) (simp_all add: regular_file_def)
qed

section \<open>Handlers by name\<close>

text \<open>The name a handler is asked for with in a configuration, and the classes that read keep-alive.\<close>

fun class_name :: "handler \<Rightarrow> string" where
  "class_name (Echo h) = ''EchoHandler''"
| "class_name (SleepEcho h) = ''SleepEchoHandler''"
| "class_name (File h) = ''StaticHandler''"
| "class_name (CompressedFile h) = ''CompressedFileHandler''"
| "class_name (NotFound h) = ''NotFoundHandler''"
| "class_name (Health h) = ''HealthHandler''"
| "class_name (Status h) = ''StatusHandler''"
| "class_name (Proxy h) = ''ProxyRequestHandler''"

fun reads_keep_alive :: "handler \<Rightarrow> bool" where
  "reads_keep_alive (Echo h) = True"
| "reads_keep_alive (SleepEcho h) = True"
| "reads_keep_alive (File h) = True"
| "reads_keep_alive (CompressedFile h) = True"
| "reads_keep_alive h = False"

definition handler_names :: "string set" where
  "handler_names = {''EchoHandler'', ''SleepEchoHandler'', ''StaticHandler'', ''CompressedFileHandler'',
     ''NotFoundHandler'', ''HealthHandler'', ''StatusHandler'', ''ProxyRequestHandler''}"

lemma FileHandler_keep_alive:
  "FileHandler u c = Inr h \<Longrightarrow> \<exists>n. get_num c ''keep-alive'' = Inr n \<and> keep_alive h = (n \<noteq> 0)"
  by (auto simp: FileHandler_def Let_def keep_alive_of_config)

lemma created_handler:
  assumes "create_handler u n c = Inr (Some h)"
  shows "class_name h = n" and "n \<in> handler_names" and "prefix_agrees u h"
    and "keep_alive (base_of h) \<longleftrightarrow> reads_keep_alive h \<and> (\<exists>k. get_num c ''keep-alive'' = Inr k \<and> k \<noteq> 0)"
proof -
  show "class_name h = n" "n \<in> handler_names"
    using assms by (auto simp: create_handler_def rbind_eq_Inr_iff handler_names_def split: if_splits)
  show "prefix_agrees u h" using assms by (rule create_handler_prefix)
  show "keep_alive (base_of h) \<longleftrightarrow> reads_keep_alive h \<and> (\<exists>k. get_num c ''keep-alive'' = Inr k \<and> k \<noteq> 0)"
    using assms
    by (auto simp: create_handler_def rbind_eq_Inr_iff base_handler.truncate_def EchoHandler_def
        SleepEchoHandler_def CompressedFileHandler_def keep_alive_of_config NotFoundHandler_def
        ProxyRequestHandler_def StatusHandler_def HealthHandler_def
        split: if_splits prod.splits dest!: FileHandler_keep_alive)
qed

section \<open>When the loop can go on\<close>

lemma session_step_enabled:
  "(\<exists>ev r. session_step B ops s g ev r) \<longleftrightarrow> pending s \<noteq> Idle"
proof
  show "\<exists>ev r. session_step B ops s g ev r \<Longrightarrow> pending s \<noteq> Idle"
    by (auto simp: session_step_iff)
  show "\<exists>ev r. session_step B ops s g ev r" if "pending s \<noteq> Idle"
    using that by (cases "pending s") (blast intro: session_step.intros)+
qed

lemma session_step_fresh:
  assumes "pending s \<noteq> Idle"
  shows "\<exists>ev r. session_step B ops s g ev r \<and> fresh ev"
proof (cases "pending s = PendingRead")
  case True
  have "fresh (ReadDone None empty_request demo_env)" by (simp add: demo_env_def)
  with session_step.read_done [OF True, of B ops g None empty_request demo_env] show ?thesis by blast
next
  case False
  obtain ev r where step: "session_step B ops s g ev r" using assms session_step_enabled by blast
  with False have "fresh ev" by (cases ev) (auto simp: session_step_iff)
  with step show ?thesis by blast
qed

text \<open>Nothing is under way any more: \<open>io_context::run\<close> returns.\<close>

definition out_of_work :: "world \<Rightarrow> bool" where
  "out_of_work w \<longleftrightarrow> \<not> accepting (http_acceptor (srv w)) \<and> \<not> accepting (https_acceptor (srv w)) \<and>
     (\<forall>(t, s) \<in> set (sessions w). pending s = Idle)"

lemma server_step_enabled:
  "(\<exists>l r. server_step B w l r) \<longleftrightarrow> \<not> out_of_work w"
proof
  assume "\<exists>l r. server_step B w l r"
  then obtain l r where "server_step B w l r" by blast
  then show "\<not> out_of_work w"
  proof (cases rule: server_step.cases)
    case (on_session i t s ev q)
    then have "(t, s) \<in> set (sessions w)" "pending s \<noteq> Idle"
      using session_step_enabled by (metis nth_mem)+
    then show ?thesis by (auto simp: out_of_work_def)
  qed (auto simp: out_of_work_def)
next
  assume "\<not> out_of_work w"
  then consider (http) "accepting (http_acceptor (srv w))" | (https) "accepting (https_acceptor (srv w))"
    | (session) t s where "(t, s) \<in> set (sessions w)" "pending s \<noteq> Idle"
    by (auto simp: out_of_work_def)
  then show "\<exists>l r. server_step B w l r"
  proof cases
    case http
    then show ?thesis using server_step.accept_http [of w True] by blast
  next
    case https
    then show ?thesis using server_step.accept_https [of w True] by blast
  next
    case session
    then obtain i where "i < length (sessions w)" "sessions w ! i = (t, s)" by (auto simp: in_set_conv_nth)
    moreover obtain ev r where "session_step B (ops_of t) s (glob w) ev r" "fresh ev"
      using session_step_fresh [OF session(2)] by blast
    ultimately show ?thesis by (blast intro: server_step.on_session)
  qed
qed

end
