(* ===== verification/Thread_Pool.thy ===== *)
theory Thread_Pool
  imports Server_Invariants
begin

text \<open>
  The threads of \<open>serve_forever\<close> (\<open>src/server.cc\<close>). Four threads run the event loop. A thread takes
  a completion, which is then no longer under way, and runs its callback while the other threads
  go on. \<open>RequestHandler::get_response\<close> touches the static log of requests, which no lock guards:
  the handler runs first, and the append to the log is an action of its own. The status handler
  reads the log twice, when it begins and when it counts the requests: its copy is an action, too.
  What the other callbacks touch is their own session or acceptor, so that they are one action.

  Two threads at the log at the same time, one of them about to append, are a data race
  (\<open>race\<close>), from which on the behaviour of the program is undefined. An append as one action is
  meaningful only outside of such states: \<open>defined_run\<close> are the runs that go on from no race, and a
  race is one of the endings in \<open>pool_ends\<close>. Memory is taken to be sequentially consistent otherwise.
\<close>

section \<open>The pool\<close>

definition threads :: nat where
  "threads = 4"

text \<open>
  A callback of a session is in the handler, or about to append to the log with the response the
  handler gave; the globals in \<open>Recording\<close> are those the handler saw, in the status handler those it
  counted the requests of. What the status handler copied is noted in the surroundings of its event.
\<close>

datatype phase = Handling | Recording globals http_response

datatype job = HttpJob bool | HttpsJob bool | SessionJob nat pending event phase

record pool =
  shared :: world
  jobs :: "job option list"

definition start_pool :: "world \<Rightarrow> pool" where
  "start_pool w = \<lparr>shared = w, jobs = replicate threads None\<rparr>"

definition set_session :: "nat \<Rightarrow> transport \<Rightarrow> session \<Rightarrow> world \<Rightarrow> world" where
  "set_session i t s w = w\<lparr>sessions := (sessions w)[i := (t, s)]\<rparr>"

lemma set_session_sel [simp]:
  "srv (set_session i t s w) = srv w" "glob (set_session i t s w) = glob w"
  "sessions (set_session i t s w) = (sessions w)[i := (t, s)]"
  by (simp_all add: set_session_def)

text \<open>
  The actions: a thread takes a completion, its status handler copies the log, its handler returns,
  its callback ends.
\<close>

datatype action = Take nat label | Copied nat | Handled nat | Done nat label

text \<open>The request of a completed read is for the status handler; the handler has made its copy if it needs one.\<close>

fun asks_status :: "(string \<times> handler) list \<Rightarrow> event \<Rightarrow> bool" where
  "asks_status table (ReadDone None request E) \<longleftrightarrow>
     (case find_handler (oob E) table (req_target request) of
        Inr (u, Some (Status h)) \<Rightarrow> True
      | _ \<Rightarrow> False)"
| "asks_status table ev \<longleftrightarrow> False"

definition has_copied :: "env \<Rightarrow> handler \<Rightarrow> bool" where
  "has_copied E h \<longleftrightarrow> (case h of Status x \<Rightarrow> log_copy E \<noteq> None | _ \<Rightarrow> True)"

inductive pool_step :: "beast \<Rightarrow> pool \<Rightarrow> action \<Rightarrow> pool \<Rightarrow> bool" for B where
  take_http: "th < length (jobs p) \<Longrightarrow> jobs p ! th = None \<Longrightarrow>
     accepting (http_acceptor (srv (shared p))) \<Longrightarrow> err \<or> listening (http_acceptor (srv (shared p))) \<Longrightarrow>
     pool_step B p (Take th (AcceptHTTP err))
       (p\<lparr>shared := accepted (shared p), jobs := (jobs p)[th := Some (HttpJob err)]\<rparr>)"
| done_http: "th < length (jobs p) \<Longrightarrow> jobs p ! th = Some (HttpJob err) \<Longrightarrow>
     handle_accept err (shared p) = Inr w \<Longrightarrow>
     pool_step B p (Done th (AcceptHTTP err)) (p\<lparr>shared := w, jobs := (jobs p)[th := None]\<rparr>)"
| take_https: "th < length (jobs p) \<Longrightarrow> jobs p ! th = None \<Longrightarrow>
     accepting (https_acceptor (srv (shared p))) \<Longrightarrow> err \<or> listening (https_acceptor (srv (shared p))) \<Longrightarrow>
     pool_step B p (Take th (AcceptHTTPS err))
       (p\<lparr>shared := accepted_https (shared p), jobs := (jobs p)[th := Some (HttpsJob err)]\<rparr>)"
| done_https: "th < length (jobs p) \<Longrightarrow> jobs p ! th = Some (HttpsJob err) \<Longrightarrow>
     handle_accept_https err (shared p) = Inr w \<Longrightarrow>
     pool_step B p (Done th (AcceptHTTPS err)) (p\<lparr>shared := w, jobs := (jobs p)[th := None]\<rparr>)"
| take_session: "th < length (jobs p) \<Longrightarrow> jobs p ! th = None \<Longrightarrow>
     i < length (sessions (shared p)) \<Longrightarrow> sessions (shared p) ! i = (t, s) \<Longrightarrow>
     session_step B (ops_of t) s (glob (shared p)) ev r \<Longrightarrow> fresh ev \<Longrightarrow>
     pool_step B p (Take th (OnSession i ev))
       (p\<lparr>shared := set_session i t (s\<lparr>pending := Idle\<rparr>) (shared p),
         jobs := (jobs p)[th := Some (SessionJob i (pending s) ev Handling)]\<rparr>)"
| done_unrouted: "th < length (jobs p) \<Longrightarrow> jobs p ! th = Some (SessionJob i pnd ev Handling) \<Longrightarrow>
     i < length (sessions (shared p)) \<Longrightarrow> sessions (shared p) ! i = (t, s) \<Longrightarrow>
     routed (urlToHandler s) ev = [] \<Longrightarrow>
     session_step B (ops_of t) (s\<lparr>pending := pnd\<rparr>) (glob (shared p)) ev (Inr (s', g')) \<Longrightarrow>
     pool_step B p (Done th (OnSession i ev))
       (p\<lparr>shared := set_session i t s' (shared p), jobs := (jobs p)[th := None]\<rparr>)"
| copied: "th < length (jobs p) \<Longrightarrow>
     jobs p ! th = Some (SessionJob i pnd (ReadDone None request E) Handling) \<Longrightarrow>
     i < length (sessions (shared p)) \<Longrightarrow> sessions (shared p) ! i = (t, s) \<Longrightarrow>
     asks_status (urlToHandler s) (ReadDone None request E) \<Longrightarrow> log_copy E = None \<Longrightarrow>
     pool_step B p (Copied th)
       (p\<lparr>jobs := (jobs p)[th := Some (SessionJob i pnd
         (ReadDone None request (E\<lparr>log_copy := Some (url_infos (glob (shared p)))\<rparr>)) Handling)]\<rparr>)"
| handled: "th < length (jobs p) \<Longrightarrow>
     jobs p ! th = Some (SessionJob i pnd (ReadDone None request E) Handling) \<Longrightarrow>
     i < length (sessions (shared p)) \<Longrightarrow> sessions (shared p) ! i = (t, s) \<Longrightarrow>
     find_handler (oob E) (urlToHandler s) (req_target request) = Inr (u, Some h) \<Longrightarrow> has_copied E h \<Longrightarrow>
     handle_request B E (glob (shared p)) h request = Inr r \<Longrightarrow>
     pool_step B p (Handled th)
       (p\<lparr>jobs := (jobs p)[th := Some (SessionJob i pnd (ReadDone None request E) (Recording (glob (shared p)) r))]\<rparr>)"
| done_recorded: "th < length (jobs p) \<Longrightarrow>
     jobs p ! th = Some (SessionJob i pnd (ReadDone None request E) (Recording g r)) \<Longrightarrow>
     i < length (sessions (shared p)) \<Longrightarrow> sessions (shared p) ! i = (t, s) \<Longrightarrow>
     session_step B (ops_of t) (s\<lparr>pending := pnd\<rparr>) g (ReadDone None request E) (Inr (s', g')) \<Longrightarrow>
     pool_step B p (Done th (OnSession i (ReadDone None request E)))
       (p\<lparr>shared := (set_session i t s' (shared p))\<lparr>glob := record_url (record_time E) request r (glob (shared p))\<rparr>,
         jobs := (jobs p)[th := None]\<rparr>)"

inductive pool_run :: "beast \<Rightarrow> pool \<Rightarrow> action list \<Rightarrow> pool \<Rightarrow> bool" for B where
  pool_nil: "pool_run B p [] p"
| pool_snoc: "pool_run B p as p1 \<Longrightarrow> pool_step B p1 a p2 \<Longrightarrow> pool_run B p (as @ [a]) p2"

text \<open>An exception leaves the callback a thread runs, and with it \<open>io_context::run\<close>.\<close>

inductive thread_throws :: "beast \<Rightarrow> pool \<Rightarrow> nat \<Rightarrow> cpp_error \<Rightarrow> bool" for B p th e where
  http_throws: "jobs p ! th = Some (HttpJob err) \<Longrightarrow> handle_accept err (shared p) = Inl e \<Longrightarrow>
     thread_throws B p th e"
| https_throws: "jobs p ! th = Some (HttpsJob err) \<Longrightarrow> handle_accept_https err (shared p) = Inl e \<Longrightarrow>
     thread_throws B p th e"
| session_throws: "jobs p ! th = Some (SessionJob i pnd ev Handling) \<Longrightarrow>
     i < length (sessions (shared p)) \<Longrightarrow> sessions (shared p) ! i = (t, s) \<Longrightarrow>
     session_step B (ops_of t) (s\<lparr>pending := pnd\<rparr>) (glob (shared p)) ev (Inl e) \<Longrightarrow> e \<noteq> NoReturn \<Longrightarrow>
     thread_throws B p th e"

text \<open>A thread waits for ever in a call of the callback it runs.\<close>

inductive thread_waits :: "beast \<Rightarrow> pool \<Rightarrow> nat \<Rightarrow> bool" for B p th where
  session_waits: "jobs p ! th = Some (SessionJob i pnd ev Handling) \<Longrightarrow>
     i < length (sessions (shared p)) \<Longrightarrow> sessions (shared p) ! i = (t, s) \<Longrightarrow>
     session_step B (ops_of t) (s\<lparr>pending := pnd\<rparr>) (glob (shared p)) ev (Inl NoReturn) \<Longrightarrow>
     thread_waits B p th"

definition pool_throws :: "beast \<Rightarrow> pool \<Rightarrow> cpp_error \<Rightarrow> bool" where
  "pool_throws B p e \<longleftrightarrow> (\<exists>th < length (jobs p). thread_throws B p th e)"

text \<open>
  A thread about to append to \<open>RequestHandler::url_info\<close>, and a thread in the status handler, which
  copies it and asks for its size; two threads at the log, of which one appends.
\<close>

fun writes_log :: "job option \<Rightarrow> bool" where
  "writes_log (Some (SessionJob i pnd ev (Recording g r))) = True"
| "writes_log y = False"

fun reads_log :: "(string \<times> handler) list \<Rightarrow> job option \<Rightarrow> bool" where
  "reads_log table (Some (SessionJob i pnd ev Handling)) = asks_status table ev"
| "reads_log table y = False"

definition race :: "pool \<Rightarrow> bool" where
  "race p \<longleftrightarrow> (\<exists>th < length (jobs p). \<exists>th' < length (jobs p). th \<noteq> th' \<and> writes_log (jobs p ! th) \<and>
     (writes_log (jobs p ! th') \<or> reads_log (server_table (srv (shared p))) (jobs p ! th')))"

text \<open>The runs whose behaviour is defined: no action is done in a race.\<close>

inductive defined_run :: "beast \<Rightarrow> pool \<Rightarrow> action list \<Rightarrow> pool \<Rightarrow> bool" for B where
  defined_nil: "defined_run B p [] p"
| defined_snoc: "defined_run B p as p1 \<Longrightarrow> \<not> race p1 \<Longrightarrow> pool_step B p1 a p2 \<Longrightarrow> defined_run B p (as @ [a]) p2"

lemma defined_pool_run: "defined_run B p as p' \<Longrightarrow> pool_run B p as p'"
  by (induction rule: defined_run.induct) (auto intro: pool_run.intros)

text \<open>
  How the program ends. Once nothing is under way every thread leaves \<open>io_context::run\<close>, the threads
  are joined and \<open>main\<close> returns 0. An exception in one of the three other threads leaves the function
  of that thread; an exception in the main thread leaves the \<open>try\<close> block, whose vector then destroys
  threads that were not joined: both call \<open>std::terminate\<close>. A signal runs the handler installed
  for it, or has its default action, by which most signals kill the process. The owner of the
  \<open>io_context\<close> can stop it, as a test does: every thread leaves \<open>run\<close> after its callback, and
  \<open>serve_forever\<close> returns. In a race anything can happen. Running out of memory is not modelled.
\<close>

datatype ending = Exits int | Terminates | KilledBy int | Stopped | Undefined

text \<open>The signals whose default action ends the process, with their numbers in Linux.\<close>

definition fatal_signal :: "int \<Rightarrow> bool" where
  "fatal_signal n \<longleftrightarrow> 1 \<le> n \<and> n \<le> 16 \<or> 24 \<le> n \<and> n \<le> 27 \<or> 29 \<le> n \<and> n \<le> 31 \<or> 34 \<le> n \<and> n \<le> 64"

inductive pool_ends :: "beast \<Rightarrow> pool \<Rightarrow> ending \<Rightarrow> bool" for B where
  joined: "out_of_work (shared p) \<Longrightarrow> (\<forall>th < length (jobs p). jobs p ! th = None) \<Longrightarrow> pool_ends B p (Exits 0)"
| thrown: "pool_throws B p e \<Longrightarrow> pool_ends B p Terminates"
| interrupted: "deliver_signal (glob (shared p)) n = Some code \<Longrightarrow> pool_ends B p (Exits code)"
| killed: "deliver_signal (glob (shared p)) n = None \<Longrightarrow> fatal_signal n \<Longrightarrow> pool_ends B p (KilledBy n)"
| stopped: "(\<forall>th < length (jobs p). jobs p ! th = None) \<Longrightarrow> pool_ends B p Stopped"
| raced: "race p \<Longrightarrow> pool_ends B p Undefined"

inductive_simps pool_ends_iff: "pool_ends B p e"

section \<open>Events of one session\<close>

fun events_of :: "nat \<Rightarrow> action \<Rightarrow> event list" where
  "events_of i (Done th (OnSession j ev)) = (if i = j then [ev] else [])"
| "events_of i a = []"

definition done_events :: "nat \<Rightarrow> action list \<Rightarrow> event list" where
  "done_events i as = concat (map (events_of i) as)"

lemma done_events_snoc [simp]:
  "done_events i (as @ [a]) = done_events i as @ events_of i a" "done_events i [] = []"
  by (simp_all add: done_events_def)

section \<open>The invariant of the pool\<close>

text \<open>Where a callback comes from: the completion of an accept, or of an operation of a session.\<close>

datatype origin = HttpAcceptor | HttpsAcceptor | FromSession nat

fun origin_of :: "job \<Rightarrow> origin" where
  "origin_of (HttpJob err) = HttpAcceptor"
| "origin_of (HttpsJob err) = HttpsAcceptor"
| "origin_of (SessionJob i pnd ev ph) = FromSession i"

definition runs :: "job option list \<Rightarrow> nat \<Rightarrow> origin \<Rightarrow> bool" where
  "runs js th src \<longleftrightarrow> th < length js \<and> (\<exists>j. js ! th = Some j \<and> origin_of j = src)"

text \<open>No two threads run callbacks of the same origin.\<close>

definition exclusive :: "job option list \<Rightarrow> bool" where
  "exclusive js \<longleftrightarrow> (\<forall>th th' src. runs js th src \<longrightarrow> runs js th' src \<longrightarrow> th = th')"

lemma runs_update:
  "runs (js[th := x]) th' src \<longleftrightarrow>
     (if th' = th then th < length js \<and> (\<exists>j. x = Some j \<and> origin_of j = src) else runs js th' src)"
  by (auto simp: runs_def nth_list_update)

lemma runs_job: "th < length js \<Longrightarrow> js ! th = Some j \<Longrightarrow> runs js th (origin_of j)"
  by (auto simp: runs_def)

lemma runs_other:
  assumes "th < length js" and "js ! th = None \<or> js ! th = Some j" and "x = None \<or> x = Some j'"
    and "src \<noteq> origin_of j" and "src \<noteq> origin_of j'"
  shows "runs (js[th := x]) th' src = runs js th' src"
  using assms by (auto simp: runs_def nth_list_update)

lemma exclusiveD: "exclusive js \<Longrightarrow> runs js th src \<Longrightarrow> runs js th' src \<Longrightarrow> th = th'"
  by (auto simp: exclusive_def)

lemma exclusive_end: "exclusive js \<Longrightarrow> exclusive (js[th := None])"
  by (auto simp: exclusive_def runs_update split: if_splits)

lemma exclusive_take:
  "exclusive js \<Longrightarrow> (\<And>th'. \<not> runs js th' (origin_of j)) \<Longrightarrow> exclusive (js[th := Some j])"
  unfolding exclusive_def runs_update by (metis option.inject)

lemma exclusive_go_on:
  assumes "exclusive js" and "th < length js" and "js ! th = Some j" and "origin_of j' = origin_of j"
  shows "exclusive (js[th := Some j'])"
  using assms unfolding exclusive_def runs_update by (metis option.inject runs_job)

text \<open>
  The state a session had when its running callback began, and its present state if none runs.
\<close>

definition session_view :: "job option list \<Rightarrow> nat \<Rightarrow> session \<Rightarrow> session \<Rightarrow> bool" where
  "session_view js i s s0 \<longleftrightarrow>
     (if \<exists>th. runs js th (FromSession i)
      then s = s0\<lparr>pending := Idle\<rparr> \<and>
        (\<forall>th < length js. \<forall>pnd ev ph. js ! th = Some (SessionJob i pnd ev ph) \<longrightarrow> pnd = pending s0)
      else s = s0)"

text \<open>The globals at an earlier time: the log only grows.\<close>

definition earlier :: "globals \<Rightarrow> globals \<Rightarrow> bool" where
  "earlier g g' \<longleftrightarrow> prefix (url_infos g) (url_infos g') \<and> urlToHandlerName g = urlToHandlerName g'"

lemma earlier_refl [simp]: "earlier g g"
  by (simp add: earlier_def)

lemma earlier_trans: "earlier g g1 \<Longrightarrow> earlier g1 g2 \<Longrightarrow> earlier g g2"
  by (auto simp: earlier_def)

lemma earlier_record [simp]: "earlier g (record_url tm request r g)"
  by (simp add: earlier_def record_url_def)

text \<open>What the status handler copied is a prefix of the log it counted later.\<close>

fun copied_ok :: "globals \<Rightarrow> event \<Rightarrow> bool" where
  "copied_ok g (ReadDone err request E) \<longleftrightarrow> (\<forall>infos. log_copy E = Some infos \<longrightarrow> prefix infos (url_infos g))"
| "copied_ok g ev \<longleftrightarrow> True"

lemma copied_ok_fresh: "fresh ev \<Longrightarrow> copied_ok g ev"
  by (cases ev) auto

lemma copied_ok_later: "copied_ok g ev \<Longrightarrow> earlier g g' \<Longrightarrow> copied_ok g' ev"
  by (cases ev) (auto simp: earlier_def)

text \<open>
  One session: it is where a run of a single session over its completed callbacks leads, each of
  which saw the globals of some earlier time.
\<close>

definition session_ok ::
  "beast \<Rightarrow> nginx_config \<Rightarrow> (string \<times> handler) list \<Rightarrow> globals \<Rightarrow> action list \<Rightarrow> job option list \<Rightarrow> nat \<Rightarrow>
     transport \<times> session \<Rightarrow> bool" where
  "session_ok B c table gl as js i x \<longleftrightarrow> (\<exists>tr s0.
     session_run B (ops_of (fst x)) (started (fst x) c table) tr s0 \<and> map snd tr = done_events i as \<and>
     (\<forall>(g, ev) \<in> set tr. earlier g gl \<and> copied_ok g ev) \<and> session_view js i (snd x) s0)"

lemma session_ok_later:
  assumes "session_ok B c table gl as js i x" and "earlier gl gl'"
  shows "session_ok B c table gl' as js i x"
proof -
  have "\<forall>(g, ev) \<in> A. earlier g gl' \<and> copied_ok g ev" if "\<forall>(g, ev) \<in> A. earlier g gl \<and> copied_ok g ev" for A
    using that assms(2) earlier_trans by blast
  with assms(1) show ?thesis unfolding session_ok_def by blast
qed

text \<open>The completion a callback was called with fits the operation that was under way.\<close>

fun fits :: "pending \<Rightarrow> event \<Rightarrow> bool" where
  "fits StartRead Dispatched = True"
| "fits StartHandshake Dispatched = True"
| "fits PendingHandshake (HandshakeDone err) = True"
| "fits PendingRead (ReadDone err request E) = True"
| "fits (PendingWrite c) (WriteDone err) = True"
| "fits pnd ev = False"

lemma session_step_fits: "(\<exists>r. session_step B ops s g ev r) \<longleftrightarrow> fits (pending s) ev"
proof
  show "\<exists>r. session_step B ops s g ev r \<Longrightarrow> fits (pending s) ev"
    by (auto simp: session_step_iff)
  show "\<exists>r. session_step B ops s g ev r" if "fits (pending s) ev"
    using that by (cases "pending s"; cases ev) (auto intro: session_step.intros)
qed

lemma fits_read [simp]: "fits pnd (ReadDone err request E) \<longleftrightarrow> pnd = PendingRead"
  by (cases pnd) simp_all

text \<open>What a callback of a session knows about its event.\<close>

fun job_ok :: "beast \<Rightarrow> (string \<times> handler) list \<Rightarrow> globals \<Rightarrow> job option \<Rightarrow> bool" where
  "job_ok B table gl (Some (SessionJob i pnd ev ph)) \<longleftrightarrow> fits pnd ev \<and> (fresh ev \<or> asks_status table ev) \<and>
     (ph = Handling \<longrightarrow> copied_ok gl ev) \<and>
     (\<forall>g r. ph = Recording g r \<longrightarrow> earlier g gl \<and> copied_ok g ev \<and> (\<exists>request E u h. ev = ReadDone None request E \<and>
        find_handler (oob E) table (req_target request) = Inr (u, Some h) \<and> has_copied E h \<and>
        handle_request B E g h request = Inr r))"
| "job_ok B table gl y \<longleftrightarrow> True"

lemma job_ok_later: "job_ok B table gl y \<Longrightarrow> earlier gl gl' \<Longrightarrow> job_ok B table gl' y"
  by (cases "(B, table, gl, y)" rule: job_ok.cases) (auto intro: earlier_trans copied_ok_later)

text \<open>An accept is under way, or its callback runs, only on a port that is served; never both.\<close>

definition accepts_ok :: "world \<Rightarrow> job option list \<Rightarrow> bool" where
  "accepts_ok w js \<longleftrightarrow>
     (accepting (http_acceptor (srv w)) \<longrightarrow> serving (srv w)) \<and>
     (accepting (https_acceptor (srv w)) \<longrightarrow> serving_https (srv w)) \<and>
     (\<forall>th. runs js th HttpAcceptor \<longrightarrow> \<not> accepting (http_acceptor (srv w)) \<and> serving (srv w)) \<and>
     (\<forall>th. runs js th HttpsAcceptor \<longrightarrow> \<not> accepting (https_acceptor (srv w)) \<and> serving_https (srv w))"

definition pool_ok :: "beast \<Rightarrow> nginx_config \<Rightarrow> (string \<times> handler) list \<Rightarrow> action list \<Rightarrow> pool \<Rightarrow> bool" where
  "pool_ok B c table as p \<longleftrightarrow>
     server_config (srv (shared p)) = c \<and> server_table (srv (shared p)) = table \<and>
     exclusive (jobs p) \<and> accepts_ok (shared p) (jobs p) \<and>
     (\<forall>i < length (sessions (shared p)). 
       session_ok B c table (glob (shared p)) as (jobs p) i (sessions (shared p) ! i)) \<and>
     (\<forall>th i. runs (jobs p) th (FromSession i) \<longrightarrow> i < length (sessions (shared p))) \<and>
     (\<forall>i. length (sessions (shared p)) \<le> i \<longrightarrow> done_events i as = []) \<and>
     (\<forall>th < length (jobs p). job_ok B table (glob (shared p)) (jobs p ! th))"

lemma session_ok_cong:
  assumes "session_ok B c table gl as js i x" and "\<And>th. runs js' th (FromSession i) = runs js th (FromSession i)"
    and "\<And>th pnd ev ph. th < length js' \<Longrightarrow> js' ! th = Some (SessionJob i pnd ev ph) \<Longrightarrow>
      th < length js \<and> (\<exists>ev' ph'. js ! th = Some (SessionJob i pnd ev' ph'))"
    and "done_events i as' = done_events i as"
  shows "session_ok B c table gl as' js' i x"
proof -
  have "session_view js' i s s0" if "session_view js i s s0" for s s0
    using that assms(3) unfolding session_view_def assms(2) by (auto split: if_splits) blast+
  with assms(1) show ?thesis unfolding session_ok_def assms(4) by blast
qed

text \<open>A thread takes a completion of a session, or ends its callback.\<close>

lemma session_view_take:
  assumes "session_view js i s s0" and "pending s \<noteq> Idle"
  shows "s = s0" and "\<not> runs js th' (FromSession i)"
    and "th < length js \<Longrightarrow> session_view (js[th := Some (SessionJob i (pending s) ev ph)]) i (s\<lparr>pending := Idle\<rparr>) s0"
proof -
  have idle: "\<not> runs js th' (FromSession i)" for th'
    using assms by (auto simp: session_view_def split: if_splits)
  then show s: "s = s0" and "\<not> runs js th' (FromSession i)"
    using assms(1) by (auto simp: session_view_def)
  have "js ! th' \<noteq> Some (SessionJob i pnd ev' ph')" if "th' < length js" for th' pnd ev' ph'
    using idle [of th'] that by (auto simp: runs_def)
  then show "session_view (js[th := Some (SessionJob i (pending s) ev ph)]) i (s\<lparr>pending := Idle\<rparr>) s0"
    if "th < length js"
    using that by (auto simp: session_view_def runs_update nth_list_update s split: if_splits)
qed

lemma session_view_done:
  assumes "session_view js i s s0" and "th < length js" and "js ! th = Some (SessionJob i pnd ev ph)"
    and "exclusive js"
  shows "s\<lparr>pending := pnd\<rparr> = s0" and "session_view (js[th := None]) i s' s'"
proof -
  have run: "runs js th (FromSession i)" using runs_job [OF assms(2,3)] by simp
  then show "s\<lparr>pending := pnd\<rparr> = s0"
    using assms(1-3) by (auto simp: session_view_def split: if_splits)
  have "\<not> runs (js[th := None]) th' (FromSession i)" for th'
    using exclusiveD [OF assms(4) run] by (auto simp: runs_update)
  then show "session_view (js[th := None]) i s' s'" by (simp add: session_view_def)
qed

section \<open>Every action keeps the invariant\<close>

text \<open>The sessions an action does not touch.\<close>

lemma untouched_session:
  assumes "session_ok B c table gl as js j x" and "th < length js"
    and "js ! th = None \<or> js ! th = Some job1" and "y = None \<or> y = Some job2"
    and "FromSession j \<noteq> origin_of job1" and "FromSession j \<noteq> origin_of job2"
    and "done_events j as' = done_events j as"
  shows "session_ok B c table gl as' (js[th := y]) j x"
  using assms(1) runs_other [OF assms(2-6)]
proof (rule session_ok_cong)
  fix th' pnd ev ph
  assume "th' < length (js[th := y])" "js[th := y] ! th' = Some (SessionJob j pnd ev ph)"
  then show "th' < length js \<and> (\<exists>ev' ph'. js ! th' = Some (SessionJob j pnd ev' ph'))"
    using assms(2,4,6) by (cases "th' = th") auto
qed (rule assms(7))


text \<open>An action on session \<open>i\<close>, in which thread \<open>th\<close> works for that session or for none.\<close>

definition job_of :: "nat \<Rightarrow> job option \<Rightarrow> bool" where
  "job_of i y \<longleftrightarrow> (\<forall>j. y = Some j \<longrightarrow> origin_of j = FromSession i)"

lemma job_of_simps [simp]: "job_of i None" "job_of i (Some j) = (origin_of j = FromSession i)"
  by (simp_all add: job_of_def)

lemma untouched_by_session:
  assumes "session_ok B c table gl as js j x" and "th < length js" and "job_of i (js ! th)" and "job_of i y"
    and "i \<noteq> j" and "events_of j a = []"
  shows "session_ok B c table gl (as @ [a]) (js[th := y]) j x"
proof -
  have "\<exists>k. (z = None \<or> z = Some k) \<and> FromSession j \<noteq> origin_of k" if "job_of i z" for z
    using that assms(5) by (cases z) (auto intro: exI [of _ "HttpJob True"])
  then obtain k k' where "js ! th = None \<or> js ! th = Some k" "FromSession j \<noteq> origin_of k"
    "y = None \<or> y = Some k'" "FromSession j \<noteq> origin_of k'" using assms(3,4) by meson
  with untouched_session [OF assms(1,2)] assms(6) show ?thesis by simp
qed

lemma pool_ok_session_action:
  assumes ok: "pool_ok B c table as p" and th: "th < length (jobs p)" and job: "job_of i (jobs p ! th)" "job_of i y"
    and i: "i < length (sessions (shared p))" and excl: "exclusive ((jobs p)[th := y])" and jok: "job_ok B table (glob w) y"
    and later: "earlier (glob (shared p)) (glob w)" and a: "\<And>j. i \<noteq> j \<Longrightarrow> events_of j a = []"
    and new: "session_ok B c table (glob w) (as @ [a]) ((jobs p)[th := y]) i x"
    and w: "srv w = srv (shared p)" "sessions w = (sessions (shared p))[i := x]"
  shows "pool_ok B c table (as @ [a]) (p\<lparr>shared := w, jobs := (jobs p)[th := y]\<rparr>)"
proof -
  have runs: "runs ((jobs p)[th := y]) th' src \<Longrightarrow> src = FromSession i \<or> runs (jobs p) th' src" for th' src
    using job by (auto simp: runs_update split: if_splits)
  have "session_ok B c table (glob w) (as @ [a]) ((jobs p)[th := y]) j (sessions w ! j)" if "j < length (sessions w)" for j
  proof (cases "i = j")
    case True
    with new i show ?thesis by (simp add: w)
  next
    case False
    with that ok have "session_ok B c table (glob (shared p)) as (jobs p) j (sessions w ! j)"
      by (simp add: pool_ok_def w)
    from untouched_by_session [OF session_ok_later [OF this later] th job False a [OF False]] show ?thesis .
  qed
  moreover have "accepts_ok w ((jobs p)[th := y])"
    using ok runs unfolding pool_ok_def accepts_ok_def w by (metis origin.distinct(3,5))
  moreover have "job_ok B table (glob w) ((jobs p)[th := y] ! th')" if "th' < length (jobs p)" for th'
    using ok jok th that later job_ok_later by (cases "th' = th") (auto simp: pool_ok_def)
  moreover have "k < length (sessions (shared p))" if "runs ((jobs p)[th := y]) th' (FromSession k)" for th' k
    using runs [OF that] ok i by (auto simp: pool_ok_def)
  ultimately show ?thesis
    using ok i excl a by (auto simp: pool_ok_def w)
qed

text \<open>An action on an acceptor, which can add sessions that were just started.\<close>

definition accept_job :: "job option \<Rightarrow> bool" where
  "accept_job y \<longleftrightarrow> (\<forall>j i. y = Some j \<longrightarrow> origin_of j \<noteq> FromSession i)"

lemma accept_job_simps [simp]: "accept_job None" "accept_job (Some (HttpJob err))" "accept_job (Some (HttpsJob err))"
  by (simp_all add: accept_job_def)

lemma accept_job_ok: "accept_job y \<Longrightarrow> job_ok B table gl y"
  by (cases "(B, table, gl, y)" rule: job_ok.cases) (auto simp: accept_job_def)

lemma pool_ok_accept_action:
  assumes ok: "pool_ok B c table as p" and th: "th < length (jobs p)" and job: "accept_job (jobs p ! th)" "accept_job y"
    and excl: "exclusive ((jobs p)[th := y])" and acc: "accepts_ok w ((jobs p)[th := y])"
    and a: "\<And>j. events_of j a = []"
    and w: "server_config (srv w) = c" "server_table (srv w) = table" "sessions w = sessions (shared p) @ xs"
      "glob w = glob (shared p)"
    and xs: "\<And>x. x \<in> set xs \<Longrightarrow> \<exists>t. x = (t, started t c table)"
  shows "pool_ok B c table (as @ [a]) (p\<lparr>shared := w, jobs := (jobs p)[th := y]\<rparr>)"
proof -
  have runs: "runs ((jobs p)[th := y]) th' (FromSession i) = runs (jobs p) th' (FromSession i)" for th' i
    using job th by (cases "th' = th") (auto simp: accept_job_def runs_def)
  have same: "session_ok B c table (glob w) (as @ [a]) ((jobs p)[th := y]) j x" if "session_ok B c table (glob w) as (jobs p) j x" for j x
    using that runs
  proof (rule session_ok_cong)
    show "th' < length (jobs p) \<and> (\<exists>ev' ph'. jobs p ! th' = Some (SessionJob j pnd ev' ph'))"
      if "th' < length ((jobs p)[th := y])" "(jobs p)[th := y] ! th' = Some (SessionJob j pnd ev ph)" for th' pnd ev ph
      using that job(2) by (cases "th' = th") (auto simp: accept_job_def)
  qed (simp add: a)
  have "session_ok B c table (glob w) as (jobs p) j (sessions w ! j)" if "j < length (sessions w)" for j
  proof (cases "j < length (sessions (shared p))")
    case True
    with ok show ?thesis by (simp add: pool_ok_def w nth_append)
  next
    case False
    then have "\<not> runs (jobs p) th' (FromSession j)" for th' using ok by (auto simp: pool_ok_def)
    moreover have "done_events j as = []" using ok False by (auto simp: pool_ok_def)
    moreover have "xs ! (j - length (sessions (shared p))) \<in> set xs"
      using False that by (intro nth_mem) (simp add: w less_diff_conv2)
    from xs [OF this] obtain t where "sessions w ! j = (t, started t c table)"
      using False by (auto simp: w nth_append)
    ultimately show ?thesis
      by (auto simp: session_ok_def session_view_def intro: session_run.done_nil)
  qed
  moreover have "job_ok B table (glob w) ((jobs p)[th := y] ! th')" if "th' < length (jobs p)" for th'
    using ok th that job(2) by (cases "th' = th") (simp_all add: pool_ok_def accept_job_ok w)
  ultimately show ?thesis
    using ok runs excl acc a same by (auto simp: pool_ok_def w trans_less_add1)
qed

text \<open>The session of an action in the middle of a run.\<close>

lemma session_ok_take:
  assumes "session_ok B c table gl as js i (t, s)" and "th < length js" and "pending s \<noteq> Idle"
  shows "session_ok B c table gl (as @ [Take th l]) (js[th := Some (SessionJob i (pending s) ev ph)]) i (t, s\<lparr>pending := Idle\<rparr>)"
    and "\<not> runs js th' (FromSession i)"
proof -
  obtain tr s0 where *: "session_run B (ops_of t) (started t c table) tr s0" "map snd tr = done_events i as"
    "\<forall>(g, ev) \<in> set tr. earlier g gl \<and> copied_ok g ev" and view: "session_view js i s s0"
    using assms(1) by (auto simp: session_ok_def)
  show "\<not> runs js th' (FromSession i)" by (rule session_view_take [OF view assms(3)])
  from * session_view_take(3) [OF view assms(3,2)]
  show "session_ok B c table gl (as @ [Take th l]) (js[th := Some (SessionJob i (pending s) ev ph)]) i (t, s\<lparr>pending := Idle\<rparr>)"
    unfolding session_ok_def by (intro exI [of _ tr] exI [of _ s0]) auto
qed

lemma session_ok_done:
  assumes "session_ok B c table gl as js i (t, s)" and "th < length js"
    and "js ! th = Some (SessionJob i pnd ev ph)" and "exclusive js"
    and "session_step B (ops_of t) (s\<lparr>pending := pnd\<rparr>) g ev (Inr (s', g'))" and "earlier g gl" and "copied_ok g ev"
  shows "session_ok B c table gl (as @ [Done th (OnSession i ev)]) (js[th := None]) i (t, s')"
proof -
  obtain tr s0 where run: "session_run B (ops_of t) (started t c table) tr s0"
    and tr: "map snd tr = done_events i as" "\<forall>(g, ev) \<in> set tr. earlier g gl \<and> copied_ok g ev"
    and view: "session_view js i s s0"
    using assms(1) by (auto simp: session_ok_def)
  have "s0 = s\<lparr>pending := pnd\<rparr>" using session_view_done(1) [OF view assms(2-4)] by simp
  from session_run.step [OF run, unfolded this, OF assms(5)] tr assms(6,7) session_view_done(2) [OF view assms(2-4)]
  show ?thesis unfolding session_ok_def by (intro exI [of _ "tr @ [(g, ev)]"] exI [of _ s']) auto
qed

lemma session_ok_table: "session_ok B c table gl as js i (t, s) \<Longrightarrow> urlToHandler s = table"
  by (auto simp: session_ok_def session_view_def split: if_splits
      dest: session_stream.run_written [OF stream_of])

text \<open>
  The two ports. The code for HTTP and HTTPS is the same twice: \<open>acc\<close> is the acceptor of one port in
  the server, \<open>put\<close> replaces it, \<open>other\<close> is the part of \<open>accepts_ok\<close> that belongs to the other port.
\<close>

locale accept_port =
  fixes acc :: "server \<Rightarrow> acceptor" and put :: "acceptor \<Rightarrow> server \<Rightarrow> server" and served :: "server \<Rightarrow> bool"
    and src :: origin and other :: "server \<Rightarrow> job option list \<Rightarrow> bool"
    and job :: "bool \<Rightarrow> job" and lab :: "bool \<Rightarrow> label" and tr :: transport
    and took :: "world \<Rightarrow> world" and handle :: "bool \<Rightarrow> world \<Rightarrow> world res"
  assumes acc_put: "acc (put a sv) = a"
    and put_sel: "served (put a sv) = served sv" "server_config (put a sv) = server_config sv"
      "server_table (put a sv) = server_table sv"
    and origin: "origin_of (job err) = src" "src \<noteq> FromSession i"
    and accepts: "accepts_ok w js \<longleftrightarrow> (accepting (acc (srv w)) \<longrightarrow> served (srv w)) \<and>
      (\<forall>th. runs js th src \<longrightarrow> \<not> accepting (acc (srv w)) \<and> served (srv w)) \<and> other (srv w) js"
    and other_put: "other (put a sv) js = other sv js"
    and other_runs: "(\<And>th src'. src' \<noteq> src \<Longrightarrow> runs js' th src' = runs js th src') \<Longrightarrow> other sv js' = other sv js"
    and took_eq: "took w = w\<lparr>srv := put ((acc (srv w))\<lparr>accepting := False\<rparr>) (srv w)\<rparr>"
    and handle_eq: "served (srv w) \<Longrightarrow> handle err w = Inr (if err then w else
      w\<lparr>srv := put ((acc (srv w))\<lparr>accepting := True\<rparr>) (srv w),
        sessions := sessions w @ [(tr, started tr (server_config (srv w)) (server_table (srv w)))]\<rparr>)"
    and no_event: "events_of j (Done th (lab err)) = []"
begin

lemma others_run:
  assumes "th < length js" and "js ! th = None \<or> js ! th = Some (job err)" and "y = None \<or> y = Some (job err')"
    and "src' \<noteq> src"
  shows "runs (js[th := y]) th' src' = runs js th' src'"
  using assms origin by (cases "th' = th") (auto simp: runs_def)

lemma accept_job [simp]: "accept_job (Some (job err))"
  using origin by (simp add: accept_job_def)

lemma accepts_take:
  assumes "accepts_ok w js" and "th < length js" and "js ! th = None" and "accepting (acc (srv w))"
  shows "accepts_ok (took w) (js[th := Some (job err)])"
  using assms others_run [of th js err "Some (job err)" err]
  by (auto simp: accepts took_eq acc_put put_sel other_put other_runs [of "js[th := Some (job err)]" js])

lemma running:
  assumes "accepts_ok w js" and "runs js th src"
  shows "served (srv w)" and "\<not> accepting (acc (srv w))"
  using assms by (auto simp: accepts)

lemma accepts_done:
  assumes "accepts_ok w js" and "exclusive js" and th: "th < length js" "js ! th = Some (job err)"
    and "handle err w = Inr w'"
  shows "accepts_ok w' (js[th := None])"
proof -
  have run: "runs js th src" using runs_job [OF th] origin by simp
  have "\<not> runs (js[th := None]) th' src" for th'
    using exclusiveD [OF assms(2) run] by (auto simp: runs_update)
  moreover have "other sv (js[th := None]) = other sv js" for sv
    using others_run [OF th(1), of err None err] th(2) by (intro other_runs) simp
  ultimately show ?thesis
    using assms(1,5) running [OF assms(1) run]
    by (auto simp: accepts acc_put put_sel other_put handle_eq split: if_splits)
qed

lemma done_ok:
  assumes ok: "pool_ok B c table as p" and th: "th < length (jobs p)"
    and job: "jobs p ! th = Some (job err)" and w: "handle err (shared p) = Inr w"
  shows "pool_ok B c table (as @ [Done th (lab err)]) (p\<lparr>shared := w, jobs := (jobs p)[th := None]\<rparr>)"
proof -
  have acc: "accepts_ok (shared p) (jobs p)" "exclusive (jobs p)" and sv: "server_config (srv (shared p)) = c"
    "server_table (srv (shared p)) = table" using ok by (simp_all add: pool_ok_def)
  have "served (srv (shared p))" using running(1) [OF acc(1)] runs_job [OF th job] origin by simp
  from w [unfolded handle_eq [OF this]] accepts_done [OF acc th job w] show ?thesis
    by (intro pool_ok_accept_action [where xs = "if err then [] else [(tr, started tr c table)]"] ok th)
      (auto simp: job exclusive_end acc sv put_sel no_event split: if_splits)
qed

lemma take_ok:
  assumes ok: "pool_ok B c table as p" and th: "th < length (jobs p)" "jobs p ! th = None"
    and acc: "accepting (acc (srv (shared p)))"
  shows "pool_ok B c table (as @ [Take th l]) (p\<lparr>shared := took (shared p), jobs := (jobs p)[th := Some (job err)]\<rparr>)"
proof -
  have "accepts_ok (shared p) (jobs p)" "exclusive (jobs p)" and sv: "server_config (srv (shared p)) = c"
    "server_table (srv (shared p)) = table" using ok by (simp_all add: pool_ok_def)
  with th acc accepts_take running(2) [of "shared p" "jobs p"] origin(1) show ?thesis
    by (intro pool_ok_accept_action [where xs = "[]"] ok exclusive_take) (auto simp: sv took_eq put_sel)
qed

end

interpretation http: accept_port http_acceptor "\<lambda>a sv. sv\<lparr>http_acceptor := a\<rparr>" serving HttpAcceptor
  "\<lambda>sv js. (accepting (https_acceptor sv) \<longrightarrow> serving_https sv) \<and>
     (\<forall>th. runs js th HttpsAcceptor \<longrightarrow> \<not> accepting (https_acceptor sv) \<and> serving_https sv)"
  HttpJob AcceptHTTP TCP accepted handle_accept
  by unfold_locales
    (auto simp: accepts_ok_def accepted_def handle_accept_def start_accepting_def Let_def)

interpretation https: accept_port https_acceptor "\<lambda>a sv. sv\<lparr>https_acceptor := a\<rparr>" serving_https HttpsAcceptor
  "\<lambda>sv js. (accepting (http_acceptor sv) \<longrightarrow> serving sv) \<and>
     (\<forall>th. runs js th HttpAcceptor \<longrightarrow> \<not> accepting (http_acceptor sv) \<and> serving sv)"
  HttpsJob AcceptHTTPS SSL accepted_https handle_accept_https
  by unfold_locales
    (auto simp: accepts_ok_def accepted_https_def handle_accept_https_def start_accepting_https_def Let_def)

lemmas handle_accept_serving = http.handle_eq https.handle_eq

text \<open>Sessions.\<close>

lemma session_action_ok:
  assumes ok: "pool_ok B c table as p" and th: "th < length (jobs p)" and i: "i < length (sessions (shared p))"
    and s: "sessions (shared p) ! i = (t, s)"
  shows "jobs p ! th = None \<Longrightarrow> session_step B (ops_of t) s g ev r \<Longrightarrow> fresh ev \<Longrightarrow>
      pool_ok B c table (as @ [Take th (OnSession i ev)])
       (p\<lparr>shared := set_session i t (s\<lparr>pending := Idle\<rparr>) (shared p),
         jobs := (jobs p)[th := Some (SessionJob i (pending s) ev Handling)]\<rparr>)" (is "_ \<Longrightarrow> _ \<Longrightarrow> _ \<Longrightarrow> ?take")
    and "jobs p ! th = Some (SessionJob i pnd ev ph) \<Longrightarrow>
      session_step B (ops_of t) (s\<lparr>pending := pnd\<rparr>) g ev (Inr (s', g')) \<Longrightarrow>
      srv w = srv (shared p) \<Longrightarrow> sessions w = sessions (set_session i t s' (shared p)) \<Longrightarrow>
      earlier g (glob w) \<Longrightarrow> earlier (glob (shared p)) (glob w) \<Longrightarrow> copied_ok g ev \<Longrightarrow>
      pool_ok B c table (as @ [Done th (OnSession i ev)]) (p\<lparr>shared := w, jobs := (jobs p)[th := None]\<rparr>)"
      (is "_ \<Longrightarrow> _ \<Longrightarrow> _ \<Longrightarrow> _ \<Longrightarrow> _ \<Longrightarrow> _ \<Longrightarrow> _ \<Longrightarrow> ?done")
proof -
  have excl: "exclusive (jobs p)" and sok: "session_ok B c table (glob (shared p)) as (jobs p) i (t, s)"
    using ok i s by (auto simp: pool_ok_def)
  show ?take if "jobs p ! th = None" and step: "session_step B (ops_of t) s g ev r" and "fresh ev"
  proof -
    have "pending s \<noteq> Idle" "fits (pending s) ev" using step session_step_enabled session_step_fits by blast+
    with that th sok show ?take
      by (intro pool_ok_session_action [OF ok th _ _ i] exclusive_take excl)
        (auto simp: session_ok_take copied_ok_fresh)
  qed
  show ?done if "jobs p ! th = Some (SessionJob i pnd ev ph)"
    and "session_step B (ops_of t) (s\<lparr>pending := pnd\<rparr>) g ev (Inr (s', g'))"
    and "srv w = srv (shared p)" "sessions w = sessions (set_session i t s' (shared p))"
    and "earlier g (glob w)" "earlier (glob (shared p)) (glob w)" and "copied_ok g ev"
    using that session_ok_done [OF session_ok_later [OF sok that(6)] th that(1) excl that(2,5,7)]
    by (intro pool_ok_session_action [OF ok th _ _ i] exclusive_end excl) (auto simp: set_session_def)
qed

text \<open>A thread goes on with the callback it runs.\<close>

lemma go_on_ok:
  assumes ok: "pool_ok B c table as p" and th: "th < length (jobs p)"
    and job: "jobs p ! th = Some (SessionJob i pnd ev ph)" and i: "i < length (sessions (shared p))"
    and jok: "job_ok B table (glob (shared p)) (Some (SessionJob i pnd ev' ph'))" and a: "\<And>j. events_of j a = []"
  shows "pool_ok B c table (as @ [a]) (p\<lparr>jobs := (jobs p)[th := Some (SessionJob i pnd ev' ph')]\<rparr>)"
proof -
  let ?js = "(jobs p)[th := Some (SessionJob i pnd ev' ph')]"
  have excl: "exclusive (jobs p)"
    and sok: "session_ok B c table (glob (shared p)) as (jobs p) i (sessions (shared p) ! i)"
    using ok i by (auto simp: pool_ok_def)
  have "runs ?js th' (FromSession i) = runs (jobs p) th' (FromSession i)" for th'
    using job th by (cases "th' = th") (auto simp: runs_def)
  then have "session_ok B c table (glob (shared p)) (as @ [a]) ?js i (sessions (shared p) ! i)"
    using job th a by (intro session_ok_cong [OF sok]) (auto simp: nth_list_update split: if_splits)
  then have "pool_ok B c table (as @ [a]) (p\<lparr>shared := shared p, jobs := ?js\<rparr>)"
    using job list_update_id [of "sessions (shared p)" i] jok a
    by (intro pool_ok_session_action [OF ok th _ _ i] exclusive_go_on [OF excl th job]) auto
  then show ?thesis by simp
qed

lemma pool_ok_job: "pool_ok B c table as p \<Longrightarrow> th < length (jobs p) \<Longrightarrow> job_ok B table (glob (shared p)) (jobs p ! th)"
  by (simp add: pool_ok_def)

lemma pool_ok_table:
  "pool_ok B c table as p \<Longrightarrow> i < length (sessions (shared p)) \<Longrightarrow> sessions (shared p) ! i = (t, s) \<Longrightarrow> urlToHandler s = table"
  unfolding pool_ok_def by (metis session_ok_table)

lemma pool_ok_step: "pool_step B p a p' \<Longrightarrow> pool_ok B c table as p \<Longrightarrow> pool_ok B c table (as @ [a]) p'"
proof (induction rule: pool_step.cases)
  case (done_unrouted th p i pnd ev t s s' g')
  then have "copied_ok (glob (shared p)) ev" using pool_ok_job [of B c table as p th] by simp
  with done_unrouted show ?case by (auto intro!: session_action_ok(2) [where g = "glob (shared p)" and g' = g'])
next
  case (copied th p i pnd request E t s)
  with pool_ok_job [of B c table as p th] pool_ok_table [of B c table as p i t s] show ?case
    by (auto intro!: go_on_ok simp del: asks_status.simps) (auto split: sum.splits option.splits)
next
  case (handled th p i pnd request E t s u h r)
  with pool_ok_job [of B c table as p th] pool_ok_table [of B c table as p i t s] show ?case
    by (auto intro!: go_on_ok simp del: asks_status.simps)
next
  case (done_recorded th p i pnd request E g r t s s' g')
  then have "job_ok B table (glob (shared p)) (Some (SessionJob i pnd (ReadDone None request E) (Recording g r)))"
    using pool_ok_job [of B c table as p th] by simp
  then have "earlier g (glob (shared p))" "copied_ok g (ReadDone None request E)" by simp_all
  with done_recorded show ?case
    by (auto intro!: session_action_ok(2) [where g = g and g' = g'] intro: earlier_trans)
qed (auto intro: http.take_ok https.take_ok http.done_ok https.done_ok session_action_ok)

lemma pool_ok_run:
  "pool_run B p as p' \<Longrightarrow> pool_ok B c table [] p \<Longrightarrow> pool_ok B c table as p'"
  by (induction rule: pool_run.induct) (auto intro: pool_ok_step)

lemma runs_start [simp]: "\<not> runs (jobs (start_pool w)) th src"
  by (auto simp: runs_def start_pool_def)

lemma pool_ok_start:
  assumes "world_ok w" and "sessions w = []"
  shows "pool_ok B (server_config (srv w)) (server_table (srv w)) [] (start_pool w)"
  using assms runs_start [of w]
  by (simp add: pool_ok_def exclusive_def accepts_ok_def world_ok_def) (simp add: start_pool_def)

section \<open>What the invariant gives\<close>

lemma pool_ok_session:
  assumes "pool_ok B c table as p" and "i < length (sessions (shared p))" and "sessions (shared p) ! i = (t, s)"
  shows "session_ok B c table (glob (shared p)) as (jobs p) i (t, s)" and "urlToHandler s = table"
proof -
  show "session_ok B c table (glob (shared p)) as (jobs p) i (t, s)" using assms by (auto simp: pool_ok_def)
  show "urlToHandler s = table" by (rule pool_ok_table [OF assms])
qed

lemma pool_ok_world:
  assumes ok: "pool_ok B c table as p" and "table_ok table"
  shows "world_ok (shared p)"
proof -
  have "life_ok (kind_of t) s" if "i < length (sessions (shared p))" "sessions (shared p) ! i = (t, s)" for i t s
  proof -
    have "session_ok B c table (glob (shared p)) as (jobs p) i (t, s)" using pool_ok_session(1) [OF ok] that by blast
    then obtain tr s0 where run: "session_run B (ops_of t) (started t c table) tr s0"
      and view: "session_view (jobs p) i s s0" by (auto simp: session_ok_def)
    from session_stream.life_ok_run [OF stream_of run started_ok] have "life_ok (kind_of t) s0" .
    with view show ?thesis
      by (auto simp: session_view_def life_ok_def split: if_splits)
  qed
  with ok assms(2) pool_ok_session(2) [OF ok] show ?thesis
    by (auto simp: world_ok_def pool_ok_def accepts_ok_def in_set_conv_nth)
qed

text \<open>An exception that leaves a callback.\<close>

lemma pool_throws_only:
  assumes ok: "pool_ok B c table as p" and "table_ok table" and "pool_throws B p e"
  shows "\<exists>th i pnd request E. th < length (jobs p) \<and>
    jobs p ! th = Some (SessionJob i pnd (ReadDone None request E) Handling) \<and>
    (fs_answers (env_fs E) \<longrightarrow> e = LengthError \<and> \<not> fs_readable (env_fs E))"
proof -
  obtain th where th: "th < length (jobs p)" and "thread_throws B p th e"
    using assms(3) by (auto simp: pool_throws_def)
  from this(2) show ?thesis
  proof cases
    case (http_throws err)
    with ok runs_job [OF th http_throws(1)] show ?thesis by (auto simp: pool_ok_def accepts_ok_def handle_accept_serving)
  next
    case (https_throws err)
    with ok runs_job [OF th https_throws(1)] show ?thesis by (auto simp: pool_ok_def accepts_ok_def handle_accept_serving)
  next
    case (session_throws i pnd ev t s)
    have "table_ok (urlToHandler (s\<lparr>pending := pnd\<rparr>))"
      using pool_ok_session(2) [OF ok session_throws(2,3)] assms(2) by simp
    from session_step_Inl [OF session_throws(4) this session_throws(5)] th session_throws(1) show ?thesis by blast
  qed
qed

text \<open>What the log gets: the targets of the requests whose callbacks ended, in that order.\<close>

fun done_label :: "action \<Rightarrow> label list" where
  "done_label (Done th l) = [l]"
| "done_label a = []"

definition done_labels :: "action list \<Rightarrow> label list" where
  "done_labels as = concat (map done_label as)"

lemma done_labels_simps [simp]:
  "done_labels [] = []" "done_labels (as @ bs) = done_labels as @ done_labels bs"
  "done_labels (a # as) = done_label a @ done_labels as"
  by (simp_all add: done_labels_def)

lemma record_url_log: "log_grows g [req_target request] (record_url tm request r g)"
  by (simp add: log_grows_def record_url_def)

lemma handle_accept_glob:
  "handle_accept err w = Inr w' \<Longrightarrow> glob w' = glob w" "handle_accept_https err w = Inr w' \<Longrightarrow> glob w' = glob w"
  by (auto simp: handle_accept_def handle_accept_https_def rbind_eq_Inr_iff Let_def split: if_splits)

lemma pool_step_log:
  assumes "pool_step B p a p'" and ok: "pool_ok B c table as p"
  shows "log_grows (glob (shared p)) (concat (map (routed_label table) (done_label a))) (glob (shared p'))"
  using assms(1)
proof (cases rule: pool_step.cases)
  case (done_unrouted th i pnd ev t s s' g')
  with pool_ok_session(2) [OF ok] show ?thesis by simp
next
  case (done_recorded th i pnd request E g r t s s' g')
  then have "job_ok B table (glob (shared p)) (Some (SessionJob i pnd (ReadDone None request E) (Recording g r)))"
    using ok unfolding pool_ok_def by metis
  then have "routed table (ReadDone None request E) = [req_target request]" by auto
  with done_recorded record_url_log show ?thesis by simp
qed (auto simp: accepted_def accepted_https_def dest: handle_accept_glob)

lemma pool_run_log:
  "pool_run B p as p' \<Longrightarrow> pool_ok B c table [] p \<Longrightarrow>
     log_grows (glob (shared p)) (concat (map (routed_label table) (done_labels as))) (glob (shared p'))"
proof (induction rule: pool_run.induct)
  case (pool_snoc p as p1 a p2)
  from log_grows_trans [OF pool_snoc.IH [OF pool_snoc.prems]
      pool_step_log [OF pool_snoc.hyps(2) pool_ok_run [OF pool_snoc.hyps(1) pool_snoc.prems]]]
  show ?case by simp
qed simp

end
