(* ===== verification/Pool_Progress.thy ===== *)
theory Pool_Progress
  imports Thread_Pool
begin

text \<open>
  What a single thread and a single session of the pool of \<open>Thread_Pool\<close> can do: the next action of a
  thread, whose callback goes on, throws or waits for ever in a call; runs in which one thread alone
  works, which no other thread can make undefined; the copy of the status handler; and a
  session whose stream is shut down, which is never worked on again.
\<close>

section \<open>Actions of one thread\<close>

fun thread_of :: "action \<Rightarrow> nat" where
  "thread_of (Take th l) = th"
| "thread_of (Copied th) = th"
| "thread_of (Handled th) = th"
| "thread_of (Done th l) = th"

fun is_take :: "action \<Rightarrow> bool" where
  "is_take (Take th l) = True"
| "is_take a = False"

text \<open>Thread \<open>th\<close> can go on with what it is doing.\<close>

definition goes_on :: "beast \<Rightarrow> pool \<Rightarrow> nat \<Rightarrow> bool" where
  "goes_on B p th \<longleftrightarrow> (\<exists>a p'. pool_step B p a p' \<and> thread_of a = th \<and> \<not> is_take a)"

lemma goes_onI: "pool_step B p a p' \<Longrightarrow> thread_of a = th \<Longrightarrow> \<not> is_take a \<Longrightarrow> goes_on B p th"
  by (auto simp: goes_on_def)

section \<open>The next action of a thread\<close>

lemma pool_step_jobs: "pool_step B p a p' \<Longrightarrow> length (jobs p') = length (jobs p)"
  by (induction rule: pool_step.cases) auto

lemma pool_run_jobs: "pool_run B p as p' \<Longrightarrow> length (jobs p') = length (jobs p)"
  by (induction rule: pool_run.induct) (auto dest: pool_step_jobs)

text \<open>A routed read succeeds exactly if the handler does, and then appends its entry to the log.\<close>

lemma routed_read:
  assumes "find_handler (oob E) (urlToHandler s) (req_target request) = Inr (u, Some h)"
    and "session_step B ops s g (ReadDone None request E) q"
  shows "(\<exists>x. q = Inr x) \<longleftrightarrow> (\<exists>r. handle_request B E g h request = Inr r)"
    and "handle_request B E g h request = Inr r \<Longrightarrow> \<exists>s'. q = Inr (s', record_url (record_time E) request r g)"
  using assms
  by (cases "handle_request B E g h request";
      auto simp: session_step_iff on_read_def construct_response_eq response_for_def get_response_def Let_def)+

lemma unrouted_glob:
  assumes "session_step B ops s g ev (Inr (s', g'))" and "routed (urlToHandler s) ev = []"
  shows "g' = g"
  using assms(1)
proof (cases rule: session_step.cases)
  case (read_done err request E)
  show ?thesis
  proof (cases err)
    case None
    with read_done(2) [symmetric] obtain r where "response_for B E (urlToHandler s) request g = Inr (r, g')"
      by (auto simp: on_read_def construct_response_eq rbind_eq_Inr_iff Let_def)
    with assms(2) None show ?thesis
      by (auto simp: read_done(1) response_for_def rbind_eq_Inr_iff split: option.splits)
  next
    case (Some e)
    with read_done(2) show ?thesis by (cases e) (simp_all add: on_read_def)
  qed
qed simp_all

lemma routedE:
  assumes "routed table ev \<noteq> []"
  obtains request E u h where "ev = ReadDone None request E"
    and "find_handler (oob E) table (req_target request) = Inr (u, Some h)"
  using assms by (cases "(table, ev)" rule: routed.cases) (auto split: sum.splits option.splits prod.splits)

lemma handling_progress:
  assumes "th < length (jobs p)" and job: "jobs p ! th = Some (SessionJob i pnd ev Handling)"
    and i: "i < length (sessions (shared p))" and s: "sessions (shared p) ! i = (t, s)"
    and q: "session_step B (ops_of t) (s\<lparr>pending := pnd\<rparr>) (glob (shared p)) ev (Inr (s', g'))"
  shows "goes_on B p th"
proof (cases "routed (urlToHandler s) ev = []")
  case True
  from goes_onI [OF pool_step.done_unrouted [OF assms(1) job i s True q]] show ?thesis by simp
next
  case False
  then obtain request E u h where ev: "ev = ReadDone None request E"
    and found: "find_handler (oob E) (urlToHandler s) (req_target request) = Inr (u, Some h)" by (rule routedE)
  obtain r where handle: "handle_request B E (glob (shared p)) h request = Inr r"
    using routed_read(1) [OF _ q [unfolded ev], of u h] found by auto
  show ?thesis
  proof (cases "has_copied E h")
    case True
    from goes_onI [OF pool_step.handled [OF assms(1) job [unfolded ev] i s found True handle]] show ?thesis by simp
  next
    case False
    then have "asks_status (urlToHandler s) (ReadDone None request E)" "log_copy E = None"
      using found by (auto simp: has_copied_def split: handler.splits)
    from goes_onI [OF pool_step.copied [OF assms(1) job [unfolded ev] i s this]] show ?thesis by simp
  qed
qed

lemma recording_progress:
  assumes "th < length (jobs p)" and job: "jobs p ! th = Some (SessionJob i pnd ev (Recording g r))"
    and i: "i < length (sessions (shared p))" and s: "sessions (shared p) ! i = (t, s)"
    and jok: "job_ok B (urlToHandler s) (glob (shared p)) (jobs p ! th)"
    and q: "session_step B (ops_of t) (s\<lparr>pending := pnd\<rparr>) g ev q"
  shows "goes_on B p th"
proof -
  obtain request E u h where ev: "ev = ReadDone None request E"
    and found: "find_handler (oob E) (urlToHandler s) (req_target request) = Inr (u, Some h)"
    and handle: "handle_request B E g h request = Inr r" using jok by (auto simp: job)
  obtain s' g' where "q = Inr (s', g')"
    using routed_read(2) [OF _ q [unfolded ev], of u h r] found handle by auto
  from goes_onI [OF pool_step.done_recorded [OF assms(1) job [unfolded ev] i s q [unfolded ev this]]]
  show ?thesis by simp
qed

lemma session_job_progress:
  assumes ok: "pool_ok B c table as p" and th: "th < length (jobs p)"
    and job: "jobs p ! th = Some (SessionJob i pnd ev ph)"
  shows "goes_on B p th \<or> (\<exists>e. thread_throws B p th e) \<or> thread_waits B p th"
proof -
  have i: "i < length (sessions (shared p))" using ok runs_job [OF th job] by (auto simp: pool_ok_def)
  obtain t s where s: "sessions (shared p) ! i = (t, s)" by (cases "sessions (shared p) ! i")
  have jok: "job_ok B (urlToHandler s) (glob (shared p)) (jobs p ! th)"
    using ok th pool_ok_session(2) [OF ok i s] by (simp add: pool_ok_def)
  then have "fits (pending (s\<lparr>pending := pnd\<rparr>)) ev" by (simp add: job)
  then have step: "\<exists>q. session_step B (ops_of t) (s\<lparr>pending := pnd\<rparr>) g ev q" for g by (simp only: session_step_fits)
  show ?thesis
  proof (cases ph)
    case Handling
    obtain q where q: "session_step B (ops_of t) (s\<lparr>pending := pnd\<rparr>) (glob (shared p)) ev q" using step by blast
    show ?thesis
    proof (cases q)
      case (Inl e)
      with q thread_throws.session_throws [OF _ i s] thread_waits.session_waits [OF _ i s] job Handling
      show ?thesis by blast
    next
      case (Inr x)
      with q handling_progress [OF th _ i s] job Handling show ?thesis by (cases x) blast
    qed
  next
    case (Recording g r)
    with step [of g] recording_progress [OF th _ i s jok] job show ?thesis by blast
  qed
qed

lemma running_progress:
  assumes ok: "pool_ok B c table as p" and th: "th < length (jobs p)" and "jobs p ! th = Some j"
  shows "goes_on B p th \<or> (\<exists>e. thread_throws B p th e) \<or> thread_waits B p th"
proof (cases j)
  case (HttpJob err)
  with assms have job: "jobs p ! th = Some (HttpJob err)" by simp
  from runs_job [OF th job] ok have "serving (srv (shared p))" by (auto simp: pool_ok_def accepts_ok_def)
  from goes_onI [OF pool_step.done_http [OF th job handle_accept_serving(1) [OF this]]] show ?thesis by simp
next
  case (HttpsJob err)
  with assms have job: "jobs p ! th = Some (HttpsJob err)" by simp
  from runs_job [OF th job] ok have "serving_https (srv (shared p))" by (auto simp: pool_ok_def accepts_ok_def)
  from goes_onI [OF pool_step.done_https [OF th job handle_accept_serving(2) [OF this]]] show ?thesis by simp
next
  case (SessionJob i pnd ev ph)
  with assms session_job_progress [OF ok th] show ?thesis by blast
qed

lemma idle_progress:
  assumes "th < length (jobs p)" and "jobs p ! th = None" and "\<not> out_of_work (shared p)"
  shows "\<exists>l p'. pool_step B p (Take th l) p'"
proof -
  obtain l r where "server_step B (shared p) l r" using assms(3) server_step_enabled by blast
  then show ?thesis
  proof (cases rule: server_step.cases)
    case (accept_http err)
    with assms pool_step.take_http show ?thesis by blast
  next
    case (accept_https err)
    with assms pool_step.take_https show ?thesis by blast
  next
    case (on_session i t s ev q)
    with assms pool_step.take_session show ?thesis by blast
  qed
qed

text \<open>A thread goes on, is left by an exception, waits in a call that never returns, or is idle for want of work.\<close>

lemma thread_enabled:
  assumes "pool_ok B c table as p" and th: "th < length (jobs p)"
  shows "(\<exists>a p'. thread_of a = th \<and> pool_step B p a p') \<or> (\<exists>e. thread_throws B p th e) \<or> thread_waits B p th \<or>
    jobs p ! th = None \<and> out_of_work (shared p)"
proof (cases "jobs p ! th")
  case None
  then have "(\<exists>a p'. thread_of a = th \<and> pool_step B p a p') \<or> out_of_work (shared p)"
    using idle_progress [OF th, of B] by (metis thread_of.simps(1))
  with None show ?thesis by blast
next
  case (Some j)
  with running_progress [OF assms Some] show ?thesis by (auto simp: goes_on_def)
qed

section \<open>Runs\<close>

lemma pool_run_append: "pool_run B p1 bs p2 \<Longrightarrow> pool_run B p as p1 \<Longrightarrow> pool_run B p (as @ bs) p2"
proof (induction rule: pool_run.induct)
  case (pool_snoc p1 bs p2 a p3)
  from pool_run.pool_snoc [OF pool_snoc.IH [OF pool_snoc.prems] pool_snoc.hyps(2)] show ?case by simp
qed simp

lemma pool_run1: "pool_step B p a p' \<Longrightarrow> pool_run B p [a] p'"
  using pool_run.pool_snoc [OF pool_run.pool_nil] by fastforce

lemma pool_run2: "pool_step B p a p1 \<Longrightarrow> pool_step B p1 b p2 \<Longrightarrow> pool_run B p [a, b] p2"
  using pool_run.pool_snoc [OF pool_run1] by fastforce

lemma pool_run3: "pool_step B p a p1 \<Longrightarrow> pool_run B p1 [b, c] p2 \<Longrightarrow> pool_run B p [a, b, c] p2"
  using pool_run_append [OF _ pool_run1, of B p1 "[b, c]" p2 p a] by simp

lemma defined_run_append: "defined_run B p1 bs p2 \<Longrightarrow> defined_run B p as p1 \<Longrightarrow> defined_run B p (as @ bs) p2"
proof (induction rule: defined_run.induct)
  case (defined_snoc p1 bs p2 a p3)
  from defined_run.defined_snoc [OF defined_snoc.IH [OF defined_snoc.prems] defined_snoc.hyps(2,3)] show ?case by simp
qed simp

text \<open>A thread that works alone: no other thread is at the log.\<close>

definition quiet :: "pool \<Rightarrow> nat \<Rightarrow> bool" where
  "quiet p th \<longleftrightarrow> (\<forall>th' < length (jobs p). th' \<noteq> th \<longrightarrow> \<not> writes_log (jobs p ! th') \<and>
     \<not> reads_log (server_table (srv (shared p))) (jobs p ! th'))"

lemma quiet_no_race: "quiet p th \<Longrightarrow> \<not> race p"
  unfolding quiet_def race_def by metis

lemma pool_step_other_jobs:
  assumes "pool_step B p a p'" and "th \<noteq> thread_of a"
  shows "jobs p' ! th = jobs p ! th"
  using assms by (cases rule: pool_step.cases) simp_all

lemma pool_step_table:
  assumes "pool_step B p a p'"
  shows "server_table (srv (shared p')) = server_table (srv (shared p))"
  using assms
  by (cases rule: pool_step.cases)
    (auto simp: accepted_def accepted_https_def handle_accept_def handle_accept_https_def rbind_eq_Inr_iff Let_def
      split: if_splits dest!: start_accepting_Inr)

lemma quiet_step:
  assumes "pool_step B p a p'" and "quiet p th" and "thread_of a = th"
  shows "quiet p' th"
  using assms(2,3) pool_step_other_jobs [OF assms(1)] pool_step_table [OF assms(1)] pool_step_jobs [OF assms(1)]
  by (auto simp: quiet_def)

lemma solo_defined:
  assumes "pool_run B p as p'" and "quiet p th" and "\<forall>a \<in> set as. thread_of a = th"
  shows "defined_run B p as p' \<and> quiet p' th"
  using assms
proof (induction rule: pool_run.induct)
  case (pool_nil p)
  then show ?case by (simp add: defined_run.defined_nil)
next
  case (pool_snoc p as p1 a p2)
  then have "defined_run B p as p1" "quiet p1 th" by simp_all
  with pool_snoc.prems quiet_step [OF pool_snoc.hyps(2)] quiet_no_race pool_snoc.hyps(2) show ?case
    by (auto intro: defined_run.defined_snoc)
qed

text \<open>A run of one thread, which is defined if no other thread is at the log.\<close>

definition thread_run :: "beast \<Rightarrow> nat \<Rightarrow> pool \<Rightarrow> action list \<Rightarrow> pool \<Rightarrow> bool" where
  "thread_run B th p as p' \<longleftrightarrow> pool_run B p as p' \<and> (quiet p th \<longrightarrow> defined_run B p as p')"

lemma thread_runI: "pool_run B p as p' \<Longrightarrow> \<forall>a \<in> set as. thread_of a = th \<Longrightarrow> thread_run B th p as p'"
  using solo_defined by (simp add: thread_run_def)

section \<open>The two accesses of the status handler\<close>

text \<open>
  Unless there was a race, what the status handler copied is the log it counts: nothing was appended
  between its two accesses.
\<close>

fun copy_agrees :: "globals \<Rightarrow> job option \<Rightarrow> bool" where
  "copy_agrees gl (Some (SessionJob i pnd (ReadDone err request E) ph)) \<longleftrightarrow>
     (\<forall>infos. log_copy E = Some infos \<longrightarrow> infos = url_infos (case ph of Handling \<Rightarrow> gl | Recording g r \<Rightarrow> g))"
| "copy_agrees gl y \<longleftrightarrow> True"

lemma copy_agrees_fresh: "fresh ev \<Longrightarrow> copy_agrees gl (Some (SessionJob i pnd ev ph))"
  by (cases ev) auto

lemma copy_agrees_other:
  assumes "copy_agrees gl y" and "\<not> reads_log table y" and "job_ok B table gl' y"
  shows "copy_agrees gl2 y"
  using assms
proof (cases "(gl, y)" rule: copy_agrees.cases)
  case (1 gl i pnd err request E ph)
  with assms show ?thesis by (cases ph) auto
qed simp_all

lemma copy_agrees_step:
  assumes step: "pool_step B p a p'" and "\<not> race p" and ok: "pool_ok B c table as p"
    and agrees: "\<forall>th < length (jobs p). copy_agrees (glob (shared p)) (jobs p ! th)"
  shows "\<forall>th < length (jobs p'). copy_agrees (glob (shared p')) (jobs p' ! th)"
proof -
  have others: "copy_agrees (glob (shared p')) (jobs p' ! th)" if "th < length (jobs p)" "th \<noteq> thread_of a" for th
  proof (cases "glob (shared p') = glob (shared p)")
    case True
    with agrees that pool_step_other_jobs [OF step] show ?thesis by simp
  next
    case False
    with step have "thread_of a < length (jobs p)" "writes_log (jobs p ! thread_of a)"
      by (cases rule: pool_step.cases; auto simp: accepted_def accepted_https_def dest: handle_accept_glob)+
    with assms(2) that have "\<not> reads_log (server_table (srv (shared p))) (jobs p ! th)" unfolding race_def by blast
    moreover have "server_table (srv (shared p)) = table" using ok by (simp add: pool_ok_def)
    moreover have "copy_agrees (glob (shared p)) (jobs p ! th)" using agrees that by blast
    ultimately have "copy_agrees (glob (shared p')) (jobs p ! th)"
      using copy_agrees_other [OF _ _ pool_ok_job [OF ok that(1)]] by blast
    with pool_step_other_jobs [OF step that(2)] show ?thesis by simp
  qed
  moreover have "copy_agrees (glob (shared p')) (jobs p' ! thread_of a)"
    using step agrees by (cases rule: pool_step.cases) (auto simp: copy_agrees_fresh)
  ultimately show ?thesis using pool_step_jobs [OF step] by metis
qed

lemma copy_agrees_run:
  "defined_run B p as p' \<Longrightarrow> pool_ok B c table [] p \<Longrightarrow> \<forall>th < length (jobs p). jobs p ! th = None \<Longrightarrow>
     \<forall>th < length (jobs p'). copy_agrees (glob (shared p')) (jobs p' ! th)"
proof (induction rule: defined_run.induct)
  case (defined_snoc p as p1 a p2)
  have "pool_ok B c table as p1" by (rule pool_ok_run [OF defined_pool_run [OF defined_snoc.hyps(1)] defined_snoc.prems(1)])
  from copy_agrees_step [OF defined_snoc.hyps(3,2) this defined_snoc.IH [OF defined_snoc.prems]] show ?case .
qed simp

text \<open>A race is between two sessions, for each of which a handler was found for its request.\<close>

lemma log_job:
  assumes "job_ok B table gl y" and "writes_log y \<or> reads_log table y"
  obtains i pnd request E ph where "y = Some (SessionJob i pnd (ReadDone None request E) ph)"
    and "routed table (ReadDone None request E) \<noteq> []"
proof (cases "(B, table, gl, y)" rule: job_ok.cases)
  case (1 B table' gl i pnd ev ph)
  show ?thesis
  proof (cases ph)
    case Handling
    with 1 assms(2) have "asks_status table ev" by simp
    with that 1 show ?thesis
      by (cases "(table, ev)" rule: asks_status.cases) (auto split: sum.splits option.splits)
  next
    case (Recording g r)
    with 1 assms(1) that show ?thesis by auto
  qed
qed (use assms(2) in simp_all)

lemma race_sessions:
  assumes ok: "pool_ok B c table as p" and "race p"
  shows "\<exists>th th' i j pnd pnd' request request' E E' ph ph'. th < length (jobs p) \<and> th' < length (jobs p) \<and> i \<noteq> j \<and>
    jobs p ! th = Some (SessionJob i pnd (ReadDone None request E) ph) \<and> routed table (ReadDone None request E) \<noteq> [] \<and>
    jobs p ! th' = Some (SessionJob j pnd' (ReadDone None request' E') ph') \<and> routed table (ReadDone None request' E') \<noteq> []"
proof -
  have "server_table (srv (shared p)) = table" and excl: "exclusive (jobs p)" using ok by (simp_all add: pool_ok_def)
  then obtain th th' where th: "th < length (jobs p)" "th' < length (jobs p)" "th \<noteq> th'"
    and "writes_log (jobs p ! th)" "writes_log (jobs p ! th') \<or> reads_log table (jobs p ! th')"
    using assms(2) by (auto simp: race_def)
  with log_job [OF pool_ok_job [OF ok th(1)]] log_job [OF pool_ok_job [OF ok th(2)]]
  obtain i pnd request E ph j pnd' request' E' ph' where
    job: "jobs p ! th = Some (SessionJob i pnd (ReadDone None request E) ph)"
      "jobs p ! th' = Some (SessionJob j pnd' (ReadDone None request' E') ph')"
    and "routed table (ReadDone None request E) \<noteq> []" "routed table (ReadDone None request' E') \<noteq> []" by metis
  moreover have "i \<noteq> j"
    using exclusiveD [OF excl runs_job [OF th(1) job(1)], of th'] runs_job [OF th(2) job(2)] th(3) by auto
  ultimately show ?thesis using th(1,2) by blast
qed

section \<open>The end of a session\<close>

text \<open>
  The last reference to a session object is held by the operation under way or by the callback a
  thread runs. Without either the destructor has run.
\<close>

definition released :: "pool \<Rightarrow> nat \<Rightarrow> bool" where
  "released p i \<longleftrightarrow> i < length (sessions (shared p)) \<and> pending (snd (sessions (shared p) ! i)) = Idle \<and>
     (\<forall>th. \<not> runs (jobs p) th (FromSession i))"

lemma released_step:
  assumes "pool_step B p a p'" and "released p i"
  shows "released p' i \<and> sessions (shared p') ! i = sessions (shared p) ! i \<and> events_of i a = []"
  using assms(1)
proof (cases rule: pool_step.cases)
  case (take_http th err)
  with assms(2) show ?thesis by (auto simp: released_def accepted_def runs_update split: if_splits)
next
  case (done_http th err w)
  with assms(2) show ?thesis
    by (auto simp: released_def handle_accept_def runs_update nth_append rbind_eq_Inr_iff Let_def split: if_splits)
next
  case (take_https th err)
  with assms(2) show ?thesis by (auto simp: released_def accepted_https_def runs_update split: if_splits)
next
  case (done_https th err w)
  with assms(2) show ?thesis
    by (auto simp: released_def handle_accept_https_def runs_update nth_append rbind_eq_Inr_iff Let_def split: if_splits)
next
  case (copied th j pnd request E t s)
  with assms(2) runs_job [OF copied(3,4)] have "j \<noteq> i" by (auto simp: released_def)
  with copied assms(2) show ?thesis by (auto simp: released_def runs_update split: if_splits)
next
  case (take_session th j t s ev r)
  then have "pending s \<noteq> Idle" using session_step_enabled by blast
  with take_session assms(2) have "j \<noteq> i" by (auto simp: released_def)
  with take_session assms(2) show ?thesis by (auto simp: released_def runs_update split: if_splits)
next
  case (done_unrouted th j pnd ev t s s' g')
  with assms(2) runs_job [OF done_unrouted(3,4)] have "j \<noteq> i" by (auto simp: released_def)
  with done_unrouted assms(2) show ?thesis by (auto simp: released_def runs_update split: if_splits)
next
  case (handled th j pnd request E t s u h r)
  with assms(2) runs_job [OF handled(3,4)] have "j \<noteq> i" by (auto simp: released_def)
  with handled assms(2) show ?thesis by (auto simp: released_def runs_update split: if_splits)
next
  case (done_recorded th j pnd request E g r t s s' g')
  with assms(2) runs_job [OF done_recorded(3,4)] have "j \<noteq> i" by (auto simp: released_def)
  with done_recorded assms(2) show ?thesis by (auto simp: released_def runs_update split: if_splits)
qed

lemma released_run:
  "pool_run B p as p' \<Longrightarrow> released p i \<Longrightarrow>
     released p' i \<and> sessions (shared p') ! i = sessions (shared p) ! i \<and> done_events i as = []"
proof (induction rule: pool_run.induct)
  case (pool_snoc p as p1 a p2)
  then show ?case using released_step [OF pool_snoc.hyps(2)] by auto
qed simp

lemma shut_released:
  assumes ok: "pool_ok B c table as p" and i: "i < length (sessions (shared p))"
    and s: "sessions (shared p) ! i = (t, s)" and "shut s \<noteq> None"
  shows "released p i"
proof -
  obtain tr s0 where run: "session_run B (ops_of t) (started t c table) tr s0" and view: "session_view (jobs p) i s s0"
    using pool_ok_session(1) [OF ok i s] by (auto simp: session_ok_def)
  have "shut s0 \<noteq> None" using view assms(4) by (auto simp: session_view_def split: if_splits)
  with session_stream.life_ok_run [OF stream_of run started_ok] have idle: "pending s0 = Idle" by (simp add: life_ok_def)
  have "\<not> runs (jobs p) th (FromSession i)" for th
  proof
    assume run: "runs (jobs p) th (FromSession i)"
    then obtain j where th: "th < length (jobs p)" "jobs p ! th = Some j" "origin_of j = FromSession i"
      by (auto simp: runs_def)
    then obtain pnd ev ph where job: "jobs p ! th = Some (SessionJob i pnd ev ph)" by (cases j) auto
    with view run th(1) idle have "pnd = Idle" by (auto simp: session_view_def split: if_splits)
    moreover have "job_ok B table (glob (shared p)) (jobs p ! th)" using ok th(1) by (simp add: pool_ok_def)
    ultimately show False by (simp add: job)
  qed
  moreover from this have "s = s0" using view by (simp add: session_view_def)
  ultimately show ?thesis using i s idle by (simp add: released_def)
qed

end
