(* ===== verification/Pool_Refinement.thy ===== *)
theory Pool_Refinement
  imports Pool_Progress
begin

text \<open>
  The pool against the loop of \<open>Server\<close>, in which a callback is one step: every run of that loop
  is a run of the pool, and a run of the pool whose table has no status handler ends where the loop
  does when it runs the callbacks in the order in which the pool ended them. Besides, the accesses
  to the log that no lock orders, and requests to a proxied server that never answers.
\<close>

section \<open>The loop as a pool\<close>

text \<open>An idle thread takes the completion of a waiting session.\<close>

definition taken :: "pool \<Rightarrow> nat \<Rightarrow> nat \<Rightarrow> transport \<Rightarrow> session \<Rightarrow> event \<Rightarrow> pool" where
  "taken p th i t s ev = p\<lparr>shared := set_session i t (s\<lparr>pending := Idle\<rparr>) (shared p),
     jobs := (jobs p)[th := Some (SessionJob i (pending s) ev Handling)]\<rparr>"

lemma take_request:
  assumes "th < length (jobs p)" and "jobs p ! th = None"
    and "i < length (sessions (shared p))" and "sessions (shared p) ! i = (t, s)" and "fits (pending s) ev"
    and "fresh ev"
  shows "pool_step B p (Take th (OnSession i ev)) (taken p th i t s ev)"
proof -
  obtain q where "session_step B (ops_of t) s (glob (shared p)) ev q"
    using assms(5) session_step_fits by blast
  from pool_step.take_session [OF assms(1-4) this assms(6)] show ?thesis unfolding taken_def .
qed

text \<open>A thread that has taken a request from an idle pool and is about to append to the log.\<close>

definition recording_pool ::
  "pool \<Rightarrow> nat \<Rightarrow> nat \<Rightarrow> http_request \<Rightarrow> env \<Rightarrow> transport \<Rightarrow> session \<Rightarrow> http_response \<Rightarrow> pool" where
  "recording_pool p th i request E t s r =
     p\<lparr>shared := set_session i t (s\<lparr>pending := Idle\<rparr>) (shared p),
       jobs := (jobs p)[th := Some (SessionJob i PendingRead (ReadDone None request E)
         (Recording (glob (shared p)) r))]\<rparr>"

text \<open>The actions of a handler, and the surroundings of its event with what it has copied.\<close>

definition handler_actions :: "nat \<Rightarrow> handler \<Rightarrow> action list" where
  "handler_actions th h = (case h of Status x \<Rightarrow> [Copied th, Handled th] | _ \<Rightarrow> [Handled th])"

definition with_copy :: "env \<Rightarrow> handler \<Rightarrow> globals \<Rightarrow> env" where
  "with_copy E h g = (case h of Status x \<Rightarrow> E\<lparr>log_copy := Some (url_infos g)\<rparr> | _ \<Rightarrow> E)"

lemma with_copy_sel [simp]:
  "oob (with_copy E h g) = oob E" "record_time (with_copy E h g) = record_time E" "has_copied (with_copy E h g) h"
  by (auto simp: with_copy_def has_copied_def split: handler.split)

lemma with_copy_other: "\<forall>x. h \<noteq> Status x \<Longrightarrow> with_copy E h g = E"
  "\<forall>x. h \<noteq> Status x \<Longrightarrow> handler_actions th h = [Handled th]"
  by (auto simp: with_copy_def handler_actions_def split: handler.split)

lemma with_copy_handles:
  "log_copy E = None \<Longrightarrow> handle_request B (with_copy E h g) g h request = handle_request B E g h request"
  by (cases h) (simp_all add: with_copy_def)

lemma handler_actions_thread [simp]: "a \<in> set (handler_actions th h) \<Longrightarrow> thread_of a = th"
  by (auto simp: handler_actions_def split: handler.splits)

lemma handler_actions_labels [simp]: "done_labels (handler_actions th h) = []"
  by (auto simp: handler_actions_def split: handler.splits)

text \<open>An idle thread runs the handler of a request that was read, up to the append to the log.\<close>

lemma handler_run:
  assumes th: "th < length (jobs p)" and job: "jobs p ! th = Some (SessionJob i pnd (ReadDone None request E) Handling)"
    and i: "i < length (sessions (shared p))" and s: "sessions (shared p) ! i = (t, s)" and E: "log_copy E = None"
    and found: "find_handler (oob E) (urlToHandler s) (req_target request) = Inr (u, Some h)"
    and handle: "handle_request B E (glob (shared p)) h request = Inr r"
  shows "pool_run B p (handler_actions th h) (p\<lparr>jobs := (jobs p)[th := Some (SessionJob i pnd
    (ReadDone None request (with_copy E h (glob (shared p)))) (Recording (glob (shared p)) r))]\<rparr>)"
proof (cases "\<exists>x. h = Status x")
  case False
  then have "pool_step B p (Handled th) (p\<lparr>jobs := (jobs p)[th := Some (SessionJob i pnd
      (ReadDone None request (with_copy E h (glob (shared p)))) (Recording (glob (shared p)) r))]\<rparr>)"
    using pool_step.handled [OF th job i s found _ handle] with_copy_sel(3) [of E h "glob (shared p)"]
    by (simp add: with_copy_other)
  with False show ?thesis by (simp add: with_copy_other pool_run1)
next
  case True
  then obtain x where h: "h = Status x" by blast
  let ?E = "E\<lparr>log_copy := Some (url_infos (glob (shared p)))\<rparr>"
  let ?p1 = "p\<lparr>jobs := (jobs p)[th := Some (SessionJob i pnd (ReadDone None request ?E) Handling)]\<rparr>"
  have "pool_step B p (Copied th) ?p1"
    using found h E by (intro pool_step.copied [OF th job i s]) auto
  moreover have "handle_request B ?E (glob (shared p)) h request = Inr r"
    using with_copy_handles [OF E, of B h "glob (shared p)"] handle by (simp add: h with_copy_def)
  then have "pool_step B ?p1 (Handled th) (?p1\<lparr>jobs := (jobs ?p1)[th := Some (SessionJob i pnd
      (ReadDone None request ?E) (Recording (glob (shared ?p1)) r))]\<rparr>)"
    using found h th i s
    by (intro pool_step.handled [where t = t and s = s and u = u and h = h]) (simp_all add: has_copied_def)
  ultimately show ?thesis using pool_run2 by (fastforce simp: h handler_actions_def with_copy_def)
qed

lemma reach_recording:
  assumes "th < length (jobs p)" and "jobs p ! th = None"
    and "i < length (sessions (shared p))" and "sessions (shared p) ! i = (t, s)" and "pending s = PendingRead"
    and "find_handler (oob E) (urlToHandler s) (req_target request) = Inr (u, Some h)"
    and "handle_request B E (glob (shared p)) h request = Inr r" and "log_copy E = None"
  shows "pool_run B p ([Take th (OnSession i (ReadDone None request E))] @ handler_actions th h)
    (recording_pool p th i request (with_copy E h (glob (shared p))) t s r)"
proof (rule pool_run_append)
  let ?p1 = "taken p th i t s (ReadDone None request E)"
  show "pool_run B p [Take th (OnSession i (ReadDone None request E))] ?p1"
    by (rule pool_run1 [OF take_request [OF assms(1-4)]]) (simp_all add: assms(5,8))
  show "pool_run B ?p1 (handler_actions th h) (recording_pool p th i request (with_copy E h (glob (shared p))) t s r)"
    using handler_run [of th ?p1 i PendingRead request E t "s\<lparr>pending := Idle\<rparr>" u h B r] assms
    by (simp add: recording_pool_def taken_def)
qed

lemma start_pool_sel [simp]:
  "shared (start_pool w) = w" "length (jobs (start_pool w)) = threads" "jobs (start_pool w) = replicate threads None"
  "(start_pool w)\<lparr>shared := w', jobs := replicate threads None\<rparr> = start_pool w'"
  by (simp_all add: start_pool_def)

lemma replicate_update [simp]: "(replicate n x)[i := x] = replicate n x"
  by (induction n arbitrary: i) (auto split: nat.split)

lemma threads_pos [simp]: "0 < threads"
  by (simp add: threads_def)

text \<open>A port with its actions in the pool and its step in the loop.\<close>

locale accept_steps = accept_port +
  assumes take_rule: "th < length (jobs p) \<Longrightarrow> jobs p ! th = None \<Longrightarrow> accepting (acc (srv (shared p))) \<Longrightarrow>
      err \<or> listening (acc (srv (shared p))) \<Longrightarrow>
      pool_step B p (Take th (lab err)) (p\<lparr>shared := took (shared p), jobs := (jobs p)[th := Some (job err)]\<rparr>)"
    and done_rule: "th < length (jobs p) \<Longrightarrow> jobs p ! th = Some (job err) \<Longrightarrow> handle err (shared p) = Inr w \<Longrightarrow>
      pool_step B p (Done th (lab err)) (p\<lparr>shared := w, jobs := (jobs p)[th := None]\<rparr>)"
    and loop_rule: "accepting (acc (srv w)) \<Longrightarrow> err \<or> listening (acc (srv w)) \<Longrightarrow>
      server_step B w (lab err) (handle err (took w))"
begin

lemma in_pool:
  assumes "accepting (acc (srv w))" and "err \<or> listening (acc (srv w))" and "handle err (took w) = Inr w'"
  shows "pool_run B (start_pool w) [Take 0 (lab err), Done 0 (lab err)] (start_pool w')"
proof -
  let ?p1 = "(start_pool (took w))\<lparr>jobs := (replicate threads None)[0 := Some (job err)]\<rparr>"
  have "pool_step B (start_pool w) (Take 0 (lab err)) ?p1"
    using take_rule [of 0 "start_pool w" err B] assms(1,2) by (simp add: start_pool_def)
  moreover have "pool_step B ?p1 (Done 0 (lab err)) (start_pool w')"
    using done_rule [of 0 ?p1 err w' B] assms(3) by (simp add: start_pool_def)
  ultimately show ?thesis by (rule pool_run2)
qed

end

interpretation http: accept_steps http_acceptor "\<lambda>a sv. sv\<lparr>http_acceptor := a\<rparr>" serving HttpAcceptor
  "\<lambda>sv js. (accepting (https_acceptor sv) \<longrightarrow> serving_https sv) \<and>
     (\<forall>th. runs js th HttpsAcceptor \<longrightarrow> \<not> accepting (https_acceptor sv) \<and> serving_https sv)"
  HttpJob AcceptHTTP TCP accepted handle_accept
  by unfold_locales (blast intro: pool_step.take_http pool_step.done_http server_step.accept_http)+

interpretation https: accept_steps https_acceptor "\<lambda>a sv. sv\<lparr>https_acceptor := a\<rparr>" serving_https HttpsAcceptor
  "\<lambda>sv js. (accepting (http_acceptor sv) \<longrightarrow> serving sv) \<and>
     (\<forall>th. runs js th HttpAcceptor \<longrightarrow> \<not> accepting (http_acceptor sv) \<and> serving sv)"
  HttpsJob AcceptHTTPS SSL accepted_https handle_accept_https
  by unfold_locales (blast intro: pool_step.take_https pool_step.done_https server_step.accept_https)+

lemma unrouted_in_pool:
  assumes i: "i < length (sessions w)" and s: "sessions w ! i = (t, s)"
    and step: "session_step B (ops_of t) s (glob w) ev (Inr (s', g'))" and unrouted: "routed (urlToHandler s) ev = []"
    and "fresh ev"
  shows "pool_run B (start_pool w) [Take 0 (OnSession i ev), Done 0 (OnSession i ev)]
    (start_pool (w\<lparr>sessions := (sessions w)[i := (t, s')], glob := g'\<rparr>))"
proof -
  let ?p1 = "(start_pool w)\<lparr>shared := set_session i t (s\<lparr>pending := Idle\<rparr>) w,
    jobs := (replicate threads None)[0 := Some (SessionJob i (pending s) ev Handling)]\<rparr>"
  let ?p2 = "?p1\<lparr>shared := set_session i t s' (shared ?p1), jobs := (jobs ?p1)[0 := None]\<rparr>"
  have "pool_step B (start_pool w) (Take 0 (OnSession i ev)) ?p1"
    using pool_step.take_session [of 0 "start_pool w" i t s B ev] i s step assms(5) by simp
  moreover have "pool_step B ?p1 (Done 0 (OnSession i ev)) ?p2"
    using i step unrouted
    by (intro pool_step.done_unrouted [where t = t and s = "s\<lparr>pending := Idle\<rparr>" and pnd = "pending s"]) simp_all
  moreover have "?p2 = start_pool (w\<lparr>sessions := (sessions w)[i := (t, s')], glob := g'\<rparr>)"
    using unrouted_glob [OF step unrouted] by (simp add: start_pool_def set_session_def)
  ultimately show ?thesis using pool_run2 by metis
qed

lemma routed_in_pool:
  assumes i: "i < length (sessions w)" and s: "sessions w ! i = (t, s)"
    and step: "session_step B (ops_of t) s (glob w) (ReadDone None request E) (Inr (s', g'))"
    and found: "find_handler (oob E) (urlToHandler s) (req_target request) = Inr (u, Some h)"
    and E: "log_copy E = None" and h: "\<forall>x. h \<noteq> Status x"
  shows "pool_run B (start_pool w) (([Take 0 (OnSession i (ReadDone None request E))] @ handler_actions 0 h) @
      [Done 0 (OnSession i (ReadDone None request E))])
    (start_pool (w\<lparr>sessions := (sessions w)[i := (t, s')], glob := g'\<rparr>))"
proof -
  obtain r where handle: "handle_request B E (glob w) h request = Inr r"
    using routed_read(1) [OF found step] by auto
  with routed_read(2) [OF found step] have g': "g' = record_url (record_time E) request r (glob w)" by auto
  have read: "pending s = PendingRead" using step by (auto simp: session_step_iff)
  have "s\<lparr>pending := pending s\<rparr> = s" by simp
  then have same: "s\<lparr>pending := PendingRead\<rparr> = s" by (simp only: read)
  let ?p2 = "recording_pool (start_pool w) 0 i request E t s r"
  let ?p3 = "?p2\<lparr>shared := (set_session i t s' (shared ?p2))\<lparr>glob := record_url (record_time E) request r (glob (shared ?p2))\<rparr>,
    jobs := (jobs ?p2)[0 := None]\<rparr>"
  have "pool_run B (start_pool w) ([Take 0 (OnSession i (ReadDone None request E))] @ handler_actions 0 h)
      (recording_pool (start_pool w) 0 i request (with_copy E h (glob (shared (start_pool w)))) t s r)"
    by (rule reach_recording [OF _ _ _ _ read found]) (simp_all add: i s handle E)
  then have "pool_run B (start_pool w) ([Take 0 (OnSession i (ReadDone None request E))] @ handler_actions 0 h) ?p2"
    by (simp only: with_copy_other [OF h])
  moreover have "pool_step B ?p2 (Done 0 (OnSession i (ReadDone None request E))) ?p3"
    using i step same
    by (intro pool_step.done_recorded [where g = "glob w" and g' = g' and t = t and s = "s\<lparr>pending := Idle\<rparr>"
          and pnd = PendingRead]) (simp_all add: recording_pool_def)
  moreover have "?p3 = start_pool (w\<lparr>sessions := (sessions w)[i := (t, s')], glob := g'\<rparr>)"
    by (simp add: g' recording_pool_def start_pool_def set_session_def)
  ultimately show ?thesis using pool_run.pool_snoc by metis
qed

text \<open>A step of the loop that does not ask for the status page is done by the first thread alone.\<close>

fun plain_label :: "(string \<times> handler) list \<Rightarrow> label \<Rightarrow> bool" where
  "plain_label table (OnSession i ev) \<longleftrightarrow> \<not> asks_status table ev"
| "plain_label table l \<longleftrightarrow> True"

lemma session_in_pool:
  assumes "i < length (sessions w)" and "sessions w ! i = (t, s)"
    and step: "session_step B (ops_of t) s (glob w) ev (Inr (s', g'))" and "fresh ev"
    and plain: "\<not> asks_status (urlToHandler s) ev"
  shows "\<exists>as. pool_run B (start_pool w) as (start_pool (w\<lparr>sessions := (sessions w)[i := (t, s')], glob := g'\<rparr>)) \<and>
    done_labels as = [OnSession i ev] \<and> (\<forall>a \<in> set as. thread_of a = 0)"
proof (cases "routed (urlToHandler s) ev = []")
  case True
  from unrouted_in_pool [OF assms(1-3) True assms(4)] show ?thesis
    by (intro exI [of _ "[Take 0 (OnSession i ev), Done 0 (OnSession i ev)]"]) simp
next
  case False
  then obtain request E u h where ev: "ev = ReadDone None request E"
    and found: "find_handler (oob E) (urlToHandler s) (req_target request) = Inr (u, Some h)" by (rule routedE)
  have "\<forall>x. h \<noteq> Status x" using plain found by (auto simp: ev)
  from routed_in_pool [OF assms(1,2) step [unfolded ev] found _ this] assms(4) show ?thesis
    by (intro exI [of _ "([Take 0 (OnSession i ev)] @ handler_actions 0 h) @ [Done 0 (OnSession i ev)]"]) (auto simp: ev)
qed

lemma step_in_pool:
  assumes "server_step B w l (Inr w')" and "world_ok w" and "plain_label (server_table (srv w)) l"
  shows "\<exists>as. pool_run B (start_pool w) as (start_pool w') \<and> done_labels as = [l] \<and> (\<forall>a \<in> set as. thread_of a = 0)"
  using assms(1)
proof (cases rule: server_step.cases)
  case (accept_http err)
  from http.in_pool [OF accept_http(3,4) accept_http(2) [symmetric], of B] accept_http(1) show ?thesis
    by (intro exI [of _ "[Take 0 (AcceptHTTP err), Done 0 (AcceptHTTP err)]"]) simp
next
  case (accept_https err)
  from https.in_pool [OF accept_https(3,4) accept_https(2) [symmetric], of B] accept_https(1) show ?thesis
    by (intro exI [of _ "[Take 0 (AcceptHTTPS err), Done 0 (AcceptHTTPS err)]"]) simp
next
  case (on_session i t s ev r)
  then obtain s' g' where r: "r = Inr (s', g')" and w': "w' = w\<lparr>sessions := (sessions w)[i := (t, s')], glob := g'\<rparr>"
    by (cases r) auto
  have "(t, s) \<in> set (sessions w)" using on_session(3,4) by (metis nth_mem)
  then have "urlToHandler s = server_table (srv w)" using assms(2) by (auto simp: world_ok_def)
  with assms(3) on_session(1) have "\<not> asks_status (urlToHandler s) ev" by simp
  from session_in_pool [OF on_session(3,4) on_session(5) [unfolded r] on_session(6) this] show ?thesis
    unfolding w' on_session(1) .
qed

lemma quiet_start [simp]: "quiet (start_pool w) th"
  by (simp add: quiet_def)

lemma run_in_pool:
  "server_run B w ls w' \<Longrightarrow> world_ok w \<Longrightarrow> \<forall>l \<in> set ls. plain_label (server_table (srv w)) l \<Longrightarrow>
     \<exists>as. defined_run B (start_pool w) as (start_pool w') \<and> done_labels as = ls"
proof (induction rule: server_run.induct)
  case (run_nil w)
  show ?case by (intro exI [of _ "[]"]) (simp add: defined_run.defined_nil)
next
  case (run_step w ls w1 l w2)
  then obtain as where as: "defined_run B (start_pool w) as (start_pool w1)" "done_labels as = ls" by auto
  have "world_ok w1" "server_table (srv w1) = server_table (srv w)"
    using world_ok_run [OF run_step.hyps(1) run_step.prems(1)] by auto
  then obtain bs where "pool_run B (start_pool w1) bs (start_pool w2)" "done_labels bs = [l]"
    "\<forall>a \<in> set bs. thread_of a = 0"
    using step_in_pool [OF run_step.hyps(2)] run_step.prems(2) by auto
  moreover from this have "defined_run B (start_pool w1) bs (start_pool w2)"
    using solo_defined [OF _ quiet_start] by blast
  ultimately show ?case using as by (intro exI [of _ "as @ bs"]) (simp add: defined_run_append)
qed

section \<open>Unordered accesses to the log\<close>

lemma two_recording_race:
  assumes "th < length (jobs p)" and "th' < length (jobs p)" and "th \<noteq> th'"
  shows "race (recording_pool (recording_pool p th i request E t s r) th' j request' E' t' s' r')"
  using assms unfolding race_def
  by (intro exI [of _ th] conjI exI [of _ th']) (simp_all add: recording_pool_def)

text \<open>A run that comes into a race comes into its first one while its behaviour is still defined.\<close>

lemma first_race:
  "pool_run B p as p' \<Longrightarrow> race p' \<Longrightarrow> \<exists>bs q. defined_run B p bs q \<and> race q"
proof -
  have "defined_run B p as p' \<or> (\<exists>bs q. defined_run B p bs q \<and> race q)" if "pool_run B p as p'" for p as p'
    using that
  proof (induction rule: pool_run.induct)
    case (pool_snoc p as p1 a p2)
    then show ?case using defined_run.defined_snoc by blast
  qed (simp add: defined_run.defined_nil)
  then show "pool_run B p as p' \<Longrightarrow> race p' \<Longrightarrow> ?thesis" by blast
qed

section \<open>The pool as a loop\<close>

text \<open>
  The world of the loop lags behind the pool: what a thread has taken is still under way there,
  until its callback ends.
\<close>

definition resumed :: "server \<Rightarrow> job option list \<Rightarrow> server" where
  "resumed sv js = sv
     \<lparr>http_acceptor := (http_acceptor sv)
        \<lparr>accepting := accepting (http_acceptor sv) \<or> (\<exists>th. runs js th HttpAcceptor)\<rparr>,
      https_acceptor := (https_acceptor sv)
        \<lparr>accepting := accepting (https_acceptor sv) \<or> (\<exists>th. runs js th HttpsAcceptor)\<rparr>\<rparr>"

definition connected :: "server \<Rightarrow> job option \<Rightarrow> bool" where
  "connected sv y \<longleftrightarrow> (\<forall>err. (y = Some (HttpJob err) \<longrightarrow> err \<or> listening (http_acceptor sv)) \<and>
     (y = Some (HttpsJob err) \<longrightarrow> err \<or> listening (https_acceptor sv)))"

lemma connected_None [simp]: "connected sv None"
  by (simp add: connected_def)

definition behind :: "world \<Rightarrow> pool \<Rightarrow> bool" where
  "behind w p \<longleftrightarrow> glob w = glob (shared p) \<and> srv w = resumed (srv (shared p)) (jobs p) \<and>
     (\<forall>th < length (jobs p). connected (srv (shared p)) (jobs p ! th)) \<and>
     length (sessions w) = length (sessions (shared p)) \<and>
     (\<forall>i < length (sessions w). fst (sessions w ! i) = fst (sessions (shared p) ! i) \<and>
        session_view (jobs p) i (snd (sessions (shared p) ! i)) (snd (sessions w ! i)))"

lemma session_view_other:
  assumes "session_view js j s s0" and "th < length js"
    and "\<And>k. js ! th = Some k \<or> y = Some k \<Longrightarrow> origin_of k \<noteq> FromSession j"
  shows "session_view (js[th := y]) j s s0"
proof -
  have "runs (js[th := y]) th' (FromSession j) = runs js th' (FromSession j)" for th'
    using assms(2,3) by (cases "th' = th") (auto simp: runs_def)
  moreover have "js[th := y] ! th' = Some (SessionJob j pnd ev ph) \<longleftrightarrow> js ! th' = Some (SessionJob j pnd ev ph)"
    if "th' < length js" for th' pnd ev ph
    using assms(2) assms(3) [of "SessionJob j pnd ev ph"] by (cases "th' = th") auto
  ultimately show ?thesis using assms(1) by (simp add: session_view_def)
qed

lemma session_view_idle: "(\<And>th. \<not> runs js th (FromSession j)) \<Longrightarrow> session_view js j s s0 \<longleftrightarrow> s = s0"
  by (simp add: session_view_def)

lemma behind_idle:
  assumes "behind w p" and "\<And>th src. \<not> runs (jobs p) th src"
  shows "w = shared p"
proof -
  have "srv w = srv (shared p)" using assms by (simp add: behind_def resumed_def)
  moreover have "sessions w = sessions (shared p)"
    using assms by (intro nth_equalityI) (auto simp: behind_def session_view_def prod_eq_iff)
  ultimately show ?thesis using assms(1) by (simp add: behind_def)
qed

lemma behind_session:
  assumes w: "behind w p" and th: "th < length (jobs p)" and job: "job_of i (jobs p ! th)" "job_of i y"
    and i: "i < length (sessions (shared p))" and view: "session_view ((jobs p)[th := y]) i s s1"
  shows "behind (w\<lparr>sessions := (sessions w)[i := (t, s1)], glob := g\<rparr>)
    (p\<lparr>shared := (set_session i t s (shared p))\<lparr>glob := g\<rparr>, jobs := (jobs p)[th := y]\<rparr>)"
proof -
  have "runs ((jobs p)[th := y]) th' src = runs (jobs p) th' src" if "src = HttpAcceptor \<or> src = HttpsAcceptor" for th' src
    using that job th by (cases "th' = th") (auto simp: runs_def)
  then have "srv w = resumed (srv (shared p)) ((jobs p)[th := y])"
    using w by (simp add: behind_def resumed_def)
  moreover have "connected (srv (shared p)) ((jobs p)[th := y] ! th')" if "th' < length (jobs p)" for th'
    using w th that job(2) by (cases "th' = th") (auto simp: behind_def connected_def)
  moreover have "session_view ((jobs p)[th := y]) j s' s0" if "session_view (jobs p) j s' s0" "i \<noteq> j" for j s' s0
    using that job by (intro session_view_other th) auto
  ultimately show ?thesis
    using w view i by (auto simp: behind_def nth_list_update)
qed

lemma behind_accept:
  assumes w: "behind w p" and th: "th < length (jobs p)" and job: "accept_job (jobs p ! th)" "accept_job y"
    and sv: "sv1 = resumed sv ((jobs p)[th := y])" "connected sv y"
    and same: "\<And>k. connected sv k = connected (srv (shared p)) k"
    and idle: "\<And>j th'. length (sessions (shared p)) \<le> j \<Longrightarrow> \<not> runs (jobs p) th' (FromSession j)"
  shows "behind (w\<lparr>srv := sv1, sessions := sessions w @ xs\<rparr>)
    (p\<lparr>shared := (shared p)\<lparr>srv := sv, sessions := sessions (shared p) @ xs\<rparr>, jobs := (jobs p)[th := y]\<rparr>)"
proof -
  have view: "session_view ((jobs p)[th := y]) j s' s0" if "session_view (jobs p) j s' s0" for j s' s0
    using that job by (intro session_view_other th) (auto simp: accept_job_def)
  moreover have "session_view (jobs p) j (snd ((sessions (shared p) @ xs) ! j)) (snd ((sessions w @ xs) ! j))"
    if "j < length (sessions w @ xs)" for j
    using w that session_view_idle [OF idle]
    by (cases "j < length (sessions (shared p))") (auto simp: behind_def nth_append)
  moreover have "connected sv ((jobs p)[th := y] ! th')" if "th' < length (jobs p)" for th'
    using w th that sv(2) same by (cases "th' = th") (auto simp: behind_def)
  ultimately show ?thesis
    using w by (auto simp: behind_def nth_append sv)
qed

text \<open>Only the status handler looks at the log.\<close>

definition no_status :: "(string \<times> handler) list \<Rightarrow> bool" where
  "no_status table \<longleftrightarrow> (\<forall>(u, h) \<in> set table. \<forall>x. h \<noteq> Status x)"

lemma handle_request_globals: "\<forall>x. h \<noteq> Status x \<Longrightarrow> handle_request B E g' h request = handle_request B E g h request"
  by (cases h) simp_all

lemma no_status_asks: "no_status table \<Longrightarrow> \<not> asks_status table ev"
proof (cases "(table, ev)" rule: asks_status.cases)
  case (1 table' request E)
  assume "no_status table"
  with 1 show ?thesis
    by (auto simp: no_status_def split: sum.splits option.splits handler.splits dest!: route.registered)
qed auto

lemma no_status_plain: "no_status table \<Longrightarrow> plain_label table l"
  by (cases l) (simp_all add: no_status_asks)

lemma read_other_globals:
  assumes "no_status (urlToHandler s)"
    and found: "find_handler (oob E) (urlToHandler s) (req_target request) = Inr (u, Some h)"
    and "session_step B ops s g (ReadDone None request E) (Inr (s', g'))" and "handle_request B E g h request = Inr r"
  shows "session_step B ops s g1 (ReadDone None request E) (Inr (s', record_url (record_time E) request r g1))"
proof -
  have "(u, h) \<in> set (urlToHandler s)" by (rule route.registered [OF found])
  then have "\<forall>x. h \<noteq> Status x" using assms(1) unfolding no_status_def by blast
  then have other: "handle_request B E g1 h request = Inr r" using handle_request_globals assms(4) by metis
  have read: "pending s = PendingRead" using assms(3) by (auto elim: session_step_readE)
  have "Inr (s', g') = on_read B E ops None (s\<lparr>pending := Idle, sess_req := request\<rparr>) g"
    using assms(3) by (auto elim: session_step_readE)
  then have "on_read B E ops None (s\<lparr>pending := Idle, sess_req := request\<rparr>) g1 =
      Inr (s', record_url (record_time E) request r g1)"
    by (simp add: on_read_def construct_response_eq response_for_def get_response_def Let_def found other assms(4))
  with session_step.read_done [OF read, of B ops g1 None request E] show ?thesis by simp
qed

text \<open>A callback of a session ends.\<close>

lemma behind_session_done:
  assumes w: "behind w p" and ok: "pool_ok B c table as p" and th: "th < length (jobs p)"
    and job: "jobs p ! th = Some (SessionJob i pnd ev ph)"
    and i: "i < length (sessions (shared p))" and s: "sessions (shared p) ! i = (t, s)"
    and step: "session_step B (ops_of t) (s\<lparr>pending := pnd\<rparr>) (glob (shared p)) ev (Inr (s', g))"
    and "no_status table"
  shows "\<exists>w'. server_step B w (OnSession i ev) (Inr w') \<and>
    behind w' (p\<lparr>shared := (set_session i t s' (shared p))\<lparr>glob := g\<rparr>, jobs := (jobs p)[th := None]\<rparr>)"
proof (intro exI conjI)
  obtain s0 where s0: "sessions w ! i = (t, s0)" and view: "session_view (jobs p) i s s0"
    and len: "i < length (sessions w)"
    using w i s by (cases "sessions w ! i") (auto simp: behind_def)
  have excl: "exclusive (jobs p)" using ok by (simp add: pool_ok_def)
  have "session_step B (ops_of t) s0 (glob w) ev (Inr (s', g))"
    using step session_view_done(1) [OF view th job excl] w by (simp add: behind_def)
  moreover have "job_ok B table (glob (shared p)) (jobs p ! th)" by (rule pool_ok_job [OF ok th])
  then have "fresh ev" using no_status_asks [OF assms(8)] by (simp add: job)
  ultimately have "server_step B w (OnSession i ev) (rbind (Inr (s', g))
      (\<lambda>(s', g'). Inr (w\<lparr>sessions := (sessions w)[i := (t, s')], glob := g'\<rparr>)))"
    by (intro server_step.on_session [OF len s0])
  then
  show "server_step B w (OnSession i ev) (Inr (w\<lparr>sessions := (sessions w)[i := (t, s')], glob := g\<rparr>))" by simp
  show "behind (w\<lparr>sessions := (sessions w)[i := (t, s')], glob := g\<rparr>)
      (p\<lparr>shared := (set_session i t s' (shared p))\<lparr>glob := g\<rparr>, jobs := (jobs p)[th := None]\<rparr>)"
    by (rule behind_session [OF w th _ _ i session_view_done(2) [OF view th job excl]]) (simp_all add: job)
qed

text \<open>A thread works on without ending a callback.\<close>

lemma behind_session_stutter:
  assumes w: "behind w p" and th: "th < length (jobs p)" and job: "job_of i (jobs p ! th)" "job_of i y"
    and i: "i < length (sessions (shared p))" and s: "sessions (shared p) ! i = (t, s)"
    and view: "\<And>s0. session_view (jobs p) i s s0 \<Longrightarrow> session_view ((jobs p)[th := y]) i s1 s0"
  shows "behind w (p\<lparr>shared := set_session i t s1 (shared p), jobs := (jobs p)[th := y]\<rparr>)"
proof -
  obtain s0 where s0: "sessions w ! i = (t, s0)" and "session_view (jobs p) i s s0"
    using w i s by (cases "sessions w ! i") (auto simp: behind_def)
  from behind_session [OF w th job i view [OF this(2)], of "glob w" t] list_update_id [of "sessions w" i] w
  show ?thesis by (simp add: s0 behind_def set_session_def)
qed

lemma behind_handled:
  assumes w: "behind w p" and th: "th < length (jobs p)" and job: "jobs p ! th = Some (SessionJob i pnd ev ph)"
    and i: "i < length (sessions (shared p))"
  shows "behind w (p\<lparr>jobs := (jobs p)[th := Some (SessionJob i pnd ev ph')]\<rparr>)"
proof -
  obtain t s where s: "sessions (shared p) ! i = (t, s)" by (cases "sessions (shared p) ! i")
  have run: "runs (jobs p) th (FromSession i)" using runs_job [OF th job] by simp
  have "session_view ((jobs p)[th := Some (SessionJob i pnd ev ph')]) i s s0" if "session_view (jobs p) i s s0" for s0
  proof -
    have "\<exists>th'. runs ((jobs p)[th := Some (SessionJob i pnd ev ph')]) th' (FromSession i)"
      using th by (intro exI [of _ th]) (simp add: runs_update)
    with that run th job show ?thesis
      by (auto simp: session_view_def nth_list_update split: if_splits)
  qed
  from behind_session_stutter [OF w th _ _ i s this] job s list_update_id [of "sessions (shared p)" i]
  show ?thesis by (simp add: set_session_def)
qed

lemma accepting_ended:
  assumes "exclusive (jobs p)" and "runs (jobs p) th src"
  shows "\<not> runs ((jobs p)[th := None]) th' src"
    and "src \<noteq> src' \<Longrightarrow> runs ((jobs p)[th := None]) th' src' = runs (jobs p) th' src'"
  using assms exclusiveD [OF assms(1)] by (auto simp: runs_update) (auto simp: runs_def)

text \<open>
  A port in the simulation: \<open>half\<close> is the server in which the other port is resumed.
\<close>

lemma accepting_same: "accepting a = b \<Longrightarrow> a\<lparr>accepting := b\<rparr> = a"
  by auto

locale accept_behind = accept_steps +
  fixes half :: "server \<Rightarrow> job option list \<Rightarrow> server"
  assumes put_put: "put a (put b sv) = put a sv" and put_acc: "put (acc sv) sv = sv"
    and resumed_port: "resumed sv js =
      put ((acc sv)\<lparr>accepting := accepting (acc sv) \<or> (\<exists>th. runs js th src)\<rparr>) (half sv js)"
    and half_put: "half (put a sv) js = put a (half sv js)"
    and half_sel: "served (half sv js) = served sv" "server_config (half sv js) = server_config sv"
      "server_table (half sv js) = server_table sv"
    and half_runs: "(\<And>th src'. src' \<noteq> src \<Longrightarrow> runs js' th src' = runs js th src') \<Longrightarrow> half sv js' = half sv js"
    and connected_port: "connected sv (Some (job err)) \<longleftrightarrow> err \<or> listening (acc sv)"
    and connected_put: "listening a = listening (acc sv) \<Longrightarrow> connected (put a sv) y = connected sv y"
begin

lemma behind_take:
  assumes w: "behind w p" and th: "th < length (jobs p)" and job: "jobs p ! th = None"
    and idle: "\<And>j th'. length (sessions (shared p)) \<le> j \<Longrightarrow> \<not> runs (jobs p) th' (FromSession j)"
    and accepting: "accepting (acc (srv (shared p)))" and listening: "err \<or> listening (acc (srv (shared p)))"
  shows "behind w (p\<lparr>shared := took (shared p), jobs := (jobs p)[th := Some (job err)]\<rparr>)"
proof -
  have "half sv ((jobs p)[th := Some (job err)]) = half sv (jobs p)" for sv
    using others_run [OF th, of err "Some (job err)" err] job by (intro half_runs) simp
  moreover have "runs ((jobs p)[th := Some (job err)]) th src" using th origin by (simp add: runs_def)
  then have "(\<exists>th'. runs ((jobs p)[th := Some (job err)]) th' src) = True" by blast
  ultimately have "srv w = resumed (srv (took (shared p))) ((jobs p)[th := Some (job err)])"
    using w accepting by (simp add: behind_def resumed_port took_eq acc_put half_put put_put)
  from behind_accept [OF w th _ _ this, of "[]"] idle listening show ?thesis
    by (simp add: job took_eq connected_port connected_put acc_put)
qed

lemma behind_done:
  assumes w: "behind w p" and ok: "pool_ok B c table as p" and th: "th < length (jobs p)"
    and job: "jobs p ! th = Some (job err)" and w1: "handle err (shared p) = Inr w1"
  shows "\<exists>w'. server_step B w (lab err) (Inr w') \<and> behind w' (p\<lparr>shared := w1, jobs := (jobs p)[th := None]\<rparr>)"
proof -
  have run: "runs (jobs p) th src" using runs_job [OF th job] origin by simp
  have excl: "exclusive (jobs p)" and "accepts_ok (shared p) (jobs p)"
    and idle: "\<And>j th'. length (sessions (shared p)) \<le> j \<Longrightarrow> \<not> runs (jobs p) th' (FromSession j)"
    using ok by (auto simp: pool_ok_def not_less [symmetric])
  then have served: "served (srv (shared p))" "\<not> accepting (acc (srv (shared p)))" using running run by blast+
  let ?xs = "if err then [] else [(tr, started tr (server_config (srv (shared p))) (server_table (srv (shared p))))]"
  let ?arm = "\<lambda>sv. put ((acc sv)\<lparr>accepting := \<not> err\<rparr>) sv"
  have sv: "srv w = resumed (srv (shared p)) (jobs p)" using w by (simp add: behind_def)
  have guard: "accepting (acc (srv w))" "err \<or> listening (acc (srv w))"
    using w th job run connected_port by (auto simp: sv resumed_port acc_put behind_def)
  have w1': "w1 = (shared p)\<lparr>srv := ?arm (srv (shared p)), sessions := sessions (shared p) @ ?xs\<rparr>"
    using w1 served by (cases err) (auto simp: handle_eq put_acc accepting_same)
  have sel: "served (srv w) = served (srv (shared p))" "server_config (srv w) = server_config (srv (shared p))"
    "server_table (srv w) = server_table (srv (shared p))" by (simp_all add: sv resumed_port put_sel half_sel)
  then have "handle err (took w) = Inr (w\<lparr>srv := ?arm (srv w), sessions := sessions w @ ?xs\<rparr>)"
    using served by (cases err) (simp_all add: handle_eq took_eq put_sel acc_put put_put)
  with loop_rule [OF guard, of B]
  have "server_step B w (lab err) (Inr (w\<lparr>srv := ?arm (srv w), sessions := sessions w @ ?xs\<rparr>))" by simp
  moreover have "half sv ((jobs p)[th := None]) = half sv (jobs p)" for sv
    using others_run [OF th, of err None err] job by (intro half_runs) simp
  then have "?arm (srv w) = resumed (?arm (srv (shared p))) ((jobs p)[th := None])"
    by (simp add: sv resumed_port acc_put half_put put_put accepting_ended [OF excl run])
  from behind_accept [OF w th _ _ this, of ?xs] idle
  have "behind (w\<lparr>srv := ?arm (srv w), sessions := sessions w @ ?xs\<rparr>) (p\<lparr>shared := w1, jobs := (jobs p)[th := None]\<rparr>)"
    unfolding w1' by (simp add: job connected_put)
  ultimately show ?thesis by blast
qed

end

interpretation http: accept_behind http_acceptor "\<lambda>a sv. sv\<lparr>http_acceptor := a\<rparr>" serving HttpAcceptor
  "\<lambda>sv js. (accepting (https_acceptor sv) \<longrightarrow> serving_https sv) \<and>
     (\<forall>th. runs js th HttpsAcceptor \<longrightarrow> \<not> accepting (https_acceptor sv) \<and> serving_https sv)"
  HttpJob AcceptHTTP TCP accepted handle_accept
  "\<lambda>sv js. sv\<lparr>https_acceptor := (https_acceptor sv)
     \<lparr>accepting := accepting (https_acceptor sv) \<or> (\<exists>th. runs js th HttpsAcceptor)\<rparr>\<rparr>"
  by unfold_locales (auto simp: resumed_def connected_def)

interpretation https: accept_behind https_acceptor "\<lambda>a sv. sv\<lparr>https_acceptor := a\<rparr>" serving_https HttpsAcceptor
  "\<lambda>sv js. (accepting (http_acceptor sv) \<longrightarrow> serving sv) \<and>
     (\<forall>th. runs js th HttpAcceptor \<longrightarrow> \<not> accepting (http_acceptor sv) \<and> serving sv)"
  HttpsJob AcceptHTTPS SSL accepted_https handle_accept_https
  "\<lambda>sv js. sv\<lparr>http_acceptor := (http_acceptor sv)
     \<lparr>accepting := accepting (http_acceptor sv) \<or> (\<exists>th. runs js th HttpAcceptor)\<rparr>\<rparr>"
  by unfold_locales (auto simp: resumed_def connected_def)

text \<open>A callback that read the log earlier and appends to it now.\<close>

lemma behind_done_recorded:
  assumes w: "behind w p" and ok: "pool_ok B c table as p" and "no_status table" and th: "th < length (jobs p)"
    and job: "jobs p ! th = Some (SessionJob i pnd (ReadDone None request E) (Recording g r))"
    and i: "i < length (sessions (shared p))" and s: "sessions (shared p) ! i = (t, s)"
    and step: "session_step B (ops_of t) (s\<lparr>pending := pnd\<rparr>) g (ReadDone None request E) (Inr (s', g'))"
  shows "\<exists>w'. server_step B w (OnSession i (ReadDone None request E)) (Inr w') \<and>
    behind w' (p\<lparr>shared := (set_session i t s' (shared p))\<lparr>glob := record_url (record_time E) request r (glob (shared p))\<rparr>,
      jobs := (jobs p)[th := None]\<rparr>)"
proof -
  have table: "urlToHandler s = table" by (rule pool_ok_session [OF ok i s])
  have "job_ok B table (glob (shared p)) (jobs p ! th)" using ok th by (simp add: pool_ok_def)
  then obtain u h where "find_handler (oob E) (urlToHandler (s\<lparr>pending := pnd\<rparr>)) (req_target request) = Inr (u, Some h)"
    and "handle_request B E g h request = Inr r" by (auto simp: job table)
  from read_other_globals [OF _ this(1) step this(2), of "glob (shared p)"] assms(3)
  have "session_step B (ops_of t) (s\<lparr>pending := pnd\<rparr>) (glob (shared p)) (ReadDone None request E)
      (Inr (s', record_url (record_time E) request r (glob (shared p))))" by (simp add: table)
  from behind_session_done [OF w ok th job i s this assms(3)] show ?thesis .
qed

text \<open>Every action of the pool is a step of the loop, or none.\<close>

lemma behind_step:
  assumes "pool_step B p a p'" and w: "behind w p" and ok: "pool_ok B c table as p" and "no_status table"
  shows "\<exists>w'. behind w' p' \<and> (case done_label a of [] \<Rightarrow> w' = w | l # ls \<Rightarrow> server_step B w l (Inr w'))"
proof -
  have idle: "length (sessions (shared p)) \<le> j \<Longrightarrow> \<not> runs (jobs p) th' (FromSession j)" for j th'
    using ok by (auto simp: pool_ok_def not_less [symmetric])
  show ?thesis using assms(1)
  proof (cases rule: pool_step.cases)
    case (take_http th err)
    with http.behind_take [OF w _ _ idle] show ?thesis by simp
  next
    case (take_https th err)
    with https.behind_take [OF w _ _ idle] show ?thesis by simp
  next
    case (done_http th err w1)
    with http.behind_done [OF w ok done_http(3-5)] show ?thesis by auto
  next
    case (done_https th err w1)
    with https.behind_done [OF w ok done_https(3-5)] show ?thesis by auto
  next
    case (take_session th i t s ev r)
    have "pending s \<noteq> Idle" using take_session(7) session_step_enabled by blast
    with take_session session_view_take(3) have "behind w p'"
      unfolding take_session(2) by (intro behind_session_stutter [OF w, where s = s]) auto
    with take_session(1) show ?thesis by simp
  next
    case (done_unrouted th i pnd ev t s s' g')
    then have "g' = glob (shared p)" using unrouted_glob [OF done_unrouted(8)] by simp
    then show ?thesis
      using behind_session_done [OF w ok done_unrouted(3-6,8) assms(4)] done_unrouted(1,2) by (auto simp: set_session_def)
  next
    case (copied th i pnd request E t s)
    then have "asks_status table (ReadDone None request E)" using pool_ok_session(2) [OF ok copied(5,6)] by simp
    with no_status_asks [OF assms(4)] show ?thesis by blast
  next
    case (handled th i pnd request E t s u h r)
    with behind_handled [OF w] show ?thesis by simp
  next
    case (done_recorded th i pnd request E g r t s s' g')
    from behind_done_recorded [OF w ok assms(4) done_recorded(3-7)] done_recorded(1,2) show ?thesis by auto
  qed
qed

lemma behind_start: "behind w (start_pool w)"
proof -
  have idle: "\<not> runs (replicate threads None) th src" for th src by (auto simp: runs_def)
  show ?thesis by (simp add: behind_def resumed_def connected_def session_view_def idle)
qed

lemma behind_run:
  "pool_run B p as p' \<Longrightarrow> pool_ok B c table [] p \<Longrightarrow> no_status table \<Longrightarrow> behind w p \<Longrightarrow>
     \<exists>w'. server_run B w (done_labels as) w' \<and> behind w' p'"
proof (induction rule: pool_run.induct)
  case (pool_nil p)
  then show ?case by (auto intro: server_run.run_nil)
next
  case (pool_snoc p as p1 a p2)
  then obtain w1 where run: "server_run B w (done_labels as) w1" and w1: "behind w1 p1" by blast
  from behind_step [OF pool_snoc.hyps(2) w1 pool_ok_run [OF pool_snoc.hyps(1) pool_snoc.prems(1)] pool_snoc.prems(2)]
  obtain w' where "behind w' p2" "case done_label a of [] \<Rightarrow> w' = w1 | l # ls \<Rightarrow> server_step B w1 l (Inr w')" by blast
  with run show ?case by (cases a) (auto intro: server_run.run_step)
qed

section \<open>Accepting connections\<close>

text \<open>The port a label is about, and what an action leaves alone that is not about that port.\<close>

fun label_origin :: "label \<Rightarrow> origin" where
  "label_origin (AcceptHTTP err) = HttpAcceptor"
| "label_origin (AcceptHTTPS err) = HttpsAcceptor"
| "label_origin (OnSession i ev) = FromSession i"

fun concerns :: "origin \<Rightarrow> action \<Rightarrow> bool" where
  "concerns src (Take th l) = (label_origin l = src)"
| "concerns src (Done th l) = (label_origin l = src)"
| "concerns src (Handled th) = False"
| "concerns src (Copied th) = False"

lemma runs_elsewhere:
  assumes "th < length js" and "\<forall>k. js ! th = Some k \<longrightarrow> origin_of k \<noteq> src" and "\<forall>k. y = Some k \<longrightarrow> origin_of k \<noteq> src"
  shows "runs (js[th := y]) th' src = runs js th' src"
  using assms by (cases "th' = th") (auto simp: runs_def)

lemma unconcerned_runs:
  assumes "pool_step B p a p'" and "\<not> concerns src a" and "\<forall>i. FromSession i \<noteq> src"
  shows "runs (jobs p') th' src = runs (jobs p) th' src"
  using assms by (cases rule: pool_step.cases) (simp_all add: runs_elsewhere)

lemma unconcerned_acceptor:
  assumes "pool_step B p a p'"
  shows "\<not> concerns HttpAcceptor a \<Longrightarrow> http_acceptor (srv (shared p')) = http_acceptor (srv (shared p))"
    and "\<not> concerns HttpsAcceptor a \<Longrightarrow> https_acceptor (srv (shared p')) = https_acceptor (srv (shared p))"
  using assms
  by (cases rule: pool_step.cases;
      auto simp: accepted_def accepted_https_def handle_accept_def handle_accept_https_def rbind_eq_Inr_iff Let_def
        split: if_splits dest!: start_accepting_Inr)+

text \<open>An accept of the port is under way, or a thread runs its callback.\<close>

definition accept_alive :: "(server \<Rightarrow> acceptor) \<Rightarrow> origin \<Rightarrow> pool \<Rightarrow> bool" where
  "accept_alive acc src p \<longleftrightarrow> accepting (acc (srv (shared p))) \<or> (\<exists>th. runs (jobs p) th src)"

locale accept_loop_port = accept_port +
  assumes lab_origin: "label_origin l = src \<longleftrightarrow> (\<exists>err. l = lab err)" and lab_inj: "lab err = lab err' \<longleftrightarrow> err = err'"
    and unconcerned: "pool_step B p a p' \<Longrightarrow> \<not> concerns src a \<Longrightarrow> acc (srv (shared p')) = acc (srv (shared p))"
    and take_inv: "pool_step B p (Take th (lab err)) p' \<Longrightarrow>
      th < length (jobs p) \<and> accepting (acc (srv (shared p))) \<and> jobs p' = (jobs p)[th := Some (job err)]"
    and done_inv: "pool_step B p (Done th (lab err)) p' \<Longrightarrow> th < length (jobs p) \<and> jobs p ! th = Some (job err) \<and>
      handle err (shared p) = Inr (shared p') \<and> jobs p' = (jobs p)[th := None]"
begin

lemma alive_done:
  assumes "pool_step B p (Done th (lab err)) p'" and ok: "pool_ok B c table as p"
  shows "accept_alive acc src p' \<longleftrightarrow> \<not> err" and "accept_alive acc src p"
proof -
  have inv: "th < length (jobs p)" "jobs p ! th = Some (job err)" "handle err (shared p) = Inr (shared p')"
    "jobs p' = (jobs p)[th := None]" using done_inv [OF assms(1)] by auto
  have run: "runs (jobs p) th src" using runs_job [OF inv(1,2)] origin by simp
  then show "accept_alive acc src p" by (auto simp: accept_alive_def)
  have excl: "exclusive (jobs p)" and "accepts_ok (shared p) (jobs p)" using ok by (auto simp: pool_ok_def)
  with run have "served (srv (shared p))" "\<not> accepting (acc (srv (shared p)))" using running by blast+
  then have "accepting (acc (srv (shared p'))) \<longleftrightarrow> \<not> err"
    using inv(3) [symmetric] by (auto simp: handle_eq acc_put split: if_splits)
  with accepting_ended(1) [OF excl run] show "accept_alive acc src p' \<longleftrightarrow> \<not> err"
    by (simp add: accept_alive_def inv(4))
qed

lemma alive_step:
  assumes step: "pool_step B p a p'" and ok: "pool_ok B c table as p"
  shows "accept_alive acc src p' \<longleftrightarrow> accept_alive acc src p \<and> lab True \<notin> set (done_label a)"
proof (cases "concerns src a")
  case False
  then have "lab True \<notin> set (done_label a)" using lab_origin by (cases a) auto
  moreover have "\<forall>i. FromSession i \<noteq> src" using origin(2) by metis
  ultimately show ?thesis
    using unconcerned [OF step False] unconcerned_runs [OF step False] by (simp add: accept_alive_def)
next
  case True
  then consider (take) th err where "a = Take th (lab err)" | (ended) th err where "a = Done th (lab err)"
    using lab_origin by (cases a) auto
  then show ?thesis
  proof cases
    case take
    then have inv: "th < length (jobs p)" "accepting (acc (srv (shared p)))" "jobs p' = (jobs p)[th := Some (job err)]"
      using take_inv step by auto
    then have "runs (jobs p') th src" using origin by (simp add: runs_def)
    with inv(2) take show ?thesis by (auto simp: accept_alive_def)
  next
    case ended
    with alive_done [OF step [unfolded ended] ok] show ?thesis by (auto simp: lab_inj)
  qed
qed

lemma alive_run:
  "pool_run B p as p' \<Longrightarrow> pool_ok B c table [] p \<Longrightarrow>
     accept_alive acc src p' \<longleftrightarrow> accept_alive acc src p \<and> lab True \<notin> set (done_labels as)"
proof (induction rule: pool_run.induct)
  case (pool_snoc p as p1 a p2)
  from alive_step [OF pool_snoc.hyps(2) pool_ok_run [OF pool_snoc.hyps(1) pool_snoc.prems]]
    pool_snoc.IH [OF pool_snoc.prems] show ?case by auto
qed simp

end

inductive_cases take_httpE: "pool_step B p (Take th (AcceptHTTP err)) p'"
inductive_cases done_httpE: "pool_step B p (Done th (AcceptHTTP err)) p'"
inductive_cases take_httpsE: "pool_step B p (Take th (AcceptHTTPS err)) p'"
inductive_cases done_httpsE: "pool_step B p (Done th (AcceptHTTPS err)) p'"

interpretation http: accept_loop_port http_acceptor "\<lambda>a sv. sv\<lparr>http_acceptor := a\<rparr>" serving HttpAcceptor
  "\<lambda>sv js. (accepting (https_acceptor sv) \<longrightarrow> serving_https sv) \<and>
     (\<forall>th. runs js th HttpsAcceptor \<longrightarrow> \<not> accepting (https_acceptor sv) \<and> serving_https sv)"
  HttpJob AcceptHTTP TCP accepted handle_accept
proof unfold_locales
  show "label_origin l = HttpAcceptor \<longleftrightarrow> (\<exists>err. l = AcceptHTTP err)" for l by (cases l) simp_all
qed (auto elim: take_httpE done_httpE dest: unconcerned_acceptor(1))

interpretation https: accept_loop_port https_acceptor "\<lambda>a sv. sv\<lparr>https_acceptor := a\<rparr>" serving_https HttpsAcceptor
  "\<lambda>sv js. (accepting (http_acceptor sv) \<longrightarrow> serving sv) \<and>
     (\<forall>th. runs js th HttpAcceptor \<longrightarrow> \<not> accepting (http_acceptor sv) \<and> serving sv)"
  HttpsJob AcceptHTTPS SSL accepted_https handle_accept_https
proof unfold_locales
  show "label_origin l = HttpsAcceptor \<longleftrightarrow> (\<exists>err. l = AcceptHTTPS err)" for l by (cases l) simp_all
qed (auto elim: take_httpsE done_httpsE dest: unconcerned_acceptor(2))

section \<open>Sessions that read\<close>

definition reading_session :: "transport \<Rightarrow> nginx_config \<Rightarrow> (string \<times> handler) list \<Rightarrow> session" where
  "reading_session t c table = do_read (ops_of t) (started t c table\<lparr>pending := Idle\<rparr>)"

lemma reading_session_sel [simp]: "pending (reading_session t c table) = PendingRead" "urlToHandler (reading_session t c table) = table"
  using session_stream.stream_laws [OF stream_of, of t] by (simp_all add: reading_session_def do_read_def Let_def)

lemma accept_step:
  assumes "accepting (http_acceptor (srv w))" and "listening (http_acceptor (srv w))" and "serving (srv w)"
  shows "server_step B w (AcceptHTTP False)
    (Inr (w\<lparr>sessions := sessions w @ [(TCP, started TCP (server_config (srv w)) (server_table (srv w)))]\<rparr>))"
proof -
  have "(http_acceptor (srv w))\<lparr>accepting := accepting (http_acceptor (srv w))\<rparr> = http_acceptor (srv w)" by simp
  then have same: "(http_acceptor (srv w))\<lparr>accepting := True\<rparr> = http_acceptor (srv w)" by (simp only: assms(1))
  from server_step.accept_http [of w False B] assms show ?thesis
    by (simp add: handle_accept_serving accepted_def same)
qed

lemma dispatch_step:
  assumes "i < length (sessions w)" and "sessions w ! i = (TCP, started TCP c table)"
  shows "server_step B w (OnSession i Dispatched) (Inr (w\<lparr>sessions := (sessions w)[i := (TCP, reading_session TCP c table)]\<rparr>))"
proof -
  have "session_step B (ops_of TCP) (started TCP c table) (glob w) Dispatched (Inr (reading_session TCP c table, glob w))"
    unfolding reading_session_def by (rule session_step.start_read) (simp add: startTCP_def)
  from server_step.on_session [OF assms this] show ?thesis by simp
qed

definition connect_labels :: "nat \<Rightarrow> label list" where
  "connect_labels n = concat (map (\<lambda>i. [AcceptHTTP False, OnSession i Dispatched]) [0..<n])"

lemma all_reading:
  assumes "accepting (http_acceptor (srv w))" and "listening (http_acceptor (srv w))" and "serving (srv w)"
    and "sessions w = []"
  shows "server_run B w (connect_labels n)
    (w\<lparr>sessions := replicate n (TCP, reading_session TCP (server_config (srv w)) (server_table (srv w)))\<rparr>)"
proof (induction n)
  case 0
  have "w\<lparr>sessions := []\<rparr> = w" by (simp add: assms(4) [symmetric])
  then show ?case by (simp add: connect_labels_def server_run.run_nil)
next
  case (Suc n)
  let ?y = "(TCP, started TCP (server_config (srv w)) (server_table (srv w)))"
  let ?x = "(TCP, reading_session TCP (server_config (srv w)) (server_table (srv w)))"
  let ?w1 = "w\<lparr>sessions := replicate n ?x @ [?y]\<rparr>"
  have "server_step B (w\<lparr>sessions := replicate n ?x\<rparr>) (AcceptHTTP False) (Inr ?w1)"
    using accept_step [of "w\<lparr>sessions := replicate n ?x\<rparr>" B] assms(1-3) by simp
  from server_run.run_step [OF Suc this]
  have run: "server_run B w (connect_labels n @ [AcceptHTTP False]) ?w1" .
  have "server_step B ?w1 (OnSession n Dispatched) (Inr (?w1\<lparr>sessions := (sessions ?w1)[n := ?x]\<rparr>))"
    by (rule dispatch_step) (simp_all add: nth_append)
  from server_run.run_step [OF run this] show ?case
    by (simp add: connect_labels_def list_update_append replicate_append_same)
qed

lemma pool_reading:
  assumes "accepting (http_acceptor (srv w))" and "listening (http_acceptor (srv w))" and "world_ok w"
    and "sessions w = []"
  shows "\<exists>as. defined_run B (start_pool w) as (start_pool
    (w\<lparr>sessions := replicate n (TCP, reading_session TCP (server_config (srv w)) (server_table (srv w)))\<rparr>))"
proof -
  have "serving (srv w)" using assms(1,3) by (simp add: world_ok_def)
  moreover have "\<forall>l \<in> set (connect_labels n). plain_label (server_table (srv w)) l"
    by (auto simp: connect_labels_def)
  ultimately show ?thesis
    using run_in_pool [OF all_reading [OF assms(1,2) _ assms(4)] assms(3)] by blast
qed

lemma race_reachable:
  assumes "accepting (http_acceptor (srv w))" and "listening (http_acceptor (srv w))" and "world_ok w"
    and "sessions w = []" and found: "find_handler (oob E) (server_table (srv w)) (req_target request) = Inr (u, Some h)"
    and handle: "handle_request B E (glob w) h request = Inr r" and E: "log_copy E = None"
  shows "\<exists>as p. defined_run B (start_pool w) as p \<and> race p"
proof -
  let ?s = "reading_session TCP (server_config (srv w)) (server_table (srv w))"
  let ?p = "start_pool (w\<lparr>sessions := replicate 2 (TCP, ?s)\<rparr>)"
  let ?E = "with_copy E h (glob w)"
  let ?p1 = "recording_pool ?p 0 0 request ?E TCP ?s r"
  let ?p2 = "recording_pool ?p1 1 1 request ?E TCP ?s r"
  have two: "1 < threads" by (simp add: threads_def)
  obtain as where "defined_run B (start_pool w) as ?p" using pool_reading [OF assms(1-4), of B 2] by blast
  then have "pool_run B (start_pool w) as ?p" by (rule defined_pool_run)
  moreover have "pool_run B ?p ([Take 0 (OnSession 0 (ReadDone None request E))] @ handler_actions 0 h) ?p1"
    using reach_recording [of 0 ?p 0 TCP ?s E request u h B r] found handle two E by simp
  moreover have "pool_run B ?p1 ([Take 1 (OnSession 1 (ReadDone None request E))] @ handler_actions 1 h) ?p2"
    using reach_recording [of 1 ?p1 1 TCP ?s E request u h B r] found handle two E by (simp add: recording_pool_def)
  moreover have "race ?p2" using two by (intro two_recording_race) simp_all
  ultimately show ?thesis using pool_run_append first_race by blast
qed

section \<open>Requests to a server that never answers\<close>

text \<open>The first \<open>k\<close> threads have taken the requests of the first \<open>k\<close> sessions.\<close>

definition asked_pool ::
  "world \<Rightarrow> transport \<Rightarrow> session \<Rightarrow> event \<Rightarrow> nat \<Rightarrow> pool" where
  "asked_pool w t s ev k =
     \<lparr>shared = w\<lparr>sessions := replicate k (t, s\<lparr>pending := Idle\<rparr>) @ replicate (threads - k) (t, s)\<rparr>,
      jobs = map (\<lambda>i. Some (SessionJob i PendingRead ev Handling)) [0..<k] @ replicate (threads - k) None\<rparr>"

lemma asked_pool_no_race: "\<not> race (asked_pool w t s ev k)"
proof -
  have "\<not> writes_log (jobs (asked_pool w t s ev k) ! th)" if "th < length (jobs (asked_pool w t s ev k))" for th
    using that by (auto simp: asked_pool_def nth_append)
  then show ?thesis unfolding race_def by blast
qed

lemma asked_pool_step:
  assumes "k < threads" and "pending s = PendingRead" and "fresh (ReadDone err request E)"
  shows "pool_step B (asked_pool w t s (ReadDone err request E) k) (Take k (OnSession k (ReadDone err request E)))
    (asked_pool w t s (ReadDone err request E) (Suc k))"
proof -
  let ?p = "asked_pool w t s (ReadDone err request E) k"
  have rest: "replicate (threads - k) x = x # replicate (threads - Suc k) x" for x :: 'z
    using assms(1) by (simp add: Suc_diff_Suc [symmetric])
  have "pool_step B ?p (Take k (OnSession k (ReadDone err request E))) (taken ?p k k t s (ReadDone err request E))"
    using assms by (intro take_request) (simp_all add: asked_pool_def nth_append)
  moreover have "taken ?p k k t s (ReadDone err request E) = asked_pool w t s (ReadDone err request E) (Suc k)"
    using assms(2)
    by (simp add: taken_def asked_pool_def set_session_def rest list_update_append replicate_app_Cons_same)
  ultimately show ?thesis by simp
qed

lemma asked_pool_run:
  assumes "pending s = PendingRead" and "fresh (ReadDone err request E)" and "k \<le> threads"
  shows "\<exists>as. defined_run B (asked_pool w t s (ReadDone err request E) 0) as (asked_pool w t s (ReadDone err request E) k)"
  using assms(3)
proof (induction k)
  case 0
  show ?case using defined_run.defined_nil by blast
next
  case (Suc k)
  then show ?case
    using defined_run.defined_snoc [OF _ asked_pool_no_race asked_pool_step [OF _ assms(1,2)]]
    by (metis Suc_le_lessD less_imp_le)
qed

lemma asked_pool_stuck:
  assumes "find_handler (oob E) (urlToHandler s) (req_target request) = Inr (u, Some (Proxy h))"
    and "Proxy_handle_request B (env_replace E) (env_net E) h request = Inl NoReturn"
    and p_def: "p = asked_pool w t s (ReadDone None request E) threads"
  shows "th < length (jobs p) \<Longrightarrow> thread_waits B p th" and "\<not> pool_step B p a p'"
proof -
  have jobs: "length (jobs p) = threads" "jobs p = map (\<lambda>i. Some (SessionJob i PendingRead (ReadDone None request E) Handling)) [0..<threads]"
    and sess: "sessions (shared p) = replicate threads (t, s\<lparr>pending := Idle\<rparr>)"
    by (simp_all add: p_def asked_pool_def)
  have "on_read B E (ops_of t) None (s\<lparr>pending := Idle, sess_req := request\<rparr>) g = Inl NoReturn" for g
    using assms(1,2) by (simp add: on_read_def construct_response_eq response_for_def get_response_def)
  with session_step.read_done [of "s\<lparr>pending := PendingRead\<rparr>" B "ops_of t" _ None request E]
  have "session_step B (ops_of t) (s\<lparr>pending := PendingRead\<rparr>) g (ReadDone None request E) (Inl NoReturn)" for g by simp
  then show "thread_waits B p th" if "th < length (jobs p)"
    using that jobs sess
    by (intro thread_waits.session_waits [where i = th and t = t and s = "s\<lparr>pending := Idle\<rparr>" and pnd = PendingRead]) simp_all
  have job: "jobs p ! th = Some (SessionJob th PendingRead (ReadDone None request E) Handling)" if "th < length (jobs p)" for th
    using that jobs by simp
  have tab: "urlToHandler s' = urlToHandler s" if "i < length (sessions (shared p))" "sessions (shared p) ! i = (t', s')" for i t' s'
    using that sess by auto
  show "\<not> pool_step B p a p'"
  proof
    assume "pool_step B p a p'"
    then show False
    proof (cases rule: pool_step.cases)
      case (done_unrouted th i pnd ev t' s' s2 g')
      with job [of th] tab [of i t' s'] assms(1) show ?thesis by auto
    next
      case (copied th i pnd request' E' t' s')
      with job [of th] tab [of i t' s'] assms(1) show ?thesis by auto
    next
      case (handled th i pnd request' E' t' s' u' h' r)
      with job [of th] tab [of i t' s'] assms(1,2) show ?thesis by auto
    qed (use job in auto)
  qed
qed

lemma asked_pool_start:
  "asked_pool w t s ev 0 = start_pool (w\<lparr>sessions := replicate threads (t, s)\<rparr>)"
  by (simp add: asked_pool_def start_pool_def)

text \<open>As many clients as there are threads, each with a request for such a server, stop all of them.\<close>

lemma starved:
  fixes E :: env
  assumes "accepting (http_acceptor (srv w))" and "listening (http_acceptor (srv w))" and "world_ok w"
    and "sessions w = []" and "log_copy E = None"
    and "find_handler (oob E) (server_table (srv w)) (req_target request) = Inr (u, Some (Proxy h))"
    and "Proxy_handle_request B (env_replace E) (env_net E) h request = Inl NoReturn"
  shows "\<exists>as p. defined_run B (start_pool w) as p \<and> accepting (http_acceptor (srv (shared p))) \<and>
    (\<forall>th < length (jobs p). thread_waits B p th) \<and> (\<forall>a p'. \<not> pool_step B p a p')"
proof -
  let ?s = "reading_session TCP (server_config (srv w)) (server_table (srv w))" and ?ev = "ReadDone None request E"
  let ?p = "asked_pool w TCP ?s ?ev threads"
  obtain as bs where "defined_run B (start_pool w) as (asked_pool w TCP ?s ?ev 0)"
    "defined_run B (asked_pool w TCP ?s ?ev 0) bs ?p"
    using pool_reading [OF assms(1-4), of B threads] asked_pool_run [of ?s None request E threads B w TCP] assms(5)
    by (auto simp: asked_pool_start)
  then have "defined_run B (start_pool w) (as @ bs) ?p" by (simp add: defined_run_append)
  moreover have "accepting (http_acceptor (srv (shared ?p)))" using assms(1) by (simp add: asked_pool_def)
  moreover have "\<forall>th < length (jobs ?p). thread_waits B ?p th" "\<forall>a p'. \<not> pool_step B ?p a p'"
    using asked_pool_stuck [of E ?s request u h B ?p w TCP] assms(6,7) by simp_all
  ultimately show ?thesis by blast
qed

section \<open>The pool of a server that was started\<close>

lemma served_pool_ok:
  assumes "serve_forever f cs api https_api c g = Inr (Running w)" and "pool_run B (start_pool w) as p"
  shows "pool_ok B (server_config (srv w)) (server_table (srv w)) as p" and "table_ok (server_table (srv w))"
    and "length (jobs p) = threads"
proof -
  have w: "world_ok w" "sessions w = []" using serve_forever_ok [OF assms(1)] serve_forever_Running [OF assms(1)] by auto
  show "pool_ok B (server_config (srv w)) (server_table (srv w)) as p"
    by (rule pool_ok_run [OF assms(2) pool_ok_start [OF w]])
  show "table_ok (server_table (srv w))" using w(1) by (simp add: world_ok_def)
  show "length (jobs p) = threads" using pool_run_jobs [OF assms(2)] by simp
qed

lemma served_log:
  assumes "serve_forever f cs api https_api c g = Inr (Running w)" and "pool_run B (start_pool w) as p"
  shows "log_grows (glob w) (concat (map (routed_label (server_table (srv w))) (done_labels as))) (glob (shared p))"
  using pool_run_log [OF assms(2) served_pool_ok(1) [OF assms(1) pool_run.pool_nil]] by simp

lemma create_all_keeps:
  assumes "create_all_handlers f c g = Inr (table, g')"
  shows "sig_actions g' = sig_actions g" and "core g' = core g"
  using assms by (auto simp: create_all_handlers_def create_all_loop_eq rbind_eq_Inr_iff add_entries_def)

lemma served_sigint:
  assumes "serve_forever f cs api https_api c g = Inr (Running w)"
  shows "sig_actions (glob w) = (sig_actions g)(SIGINT := Some server_sigint)" and "core (glob w) = core g"
proof -
  obtain s g' where "server_init f api https_api c (register_server_sigint g) = Inr (s, g')" "glob w = g'"
    using serve_forever_Running [OF assms] by blast
  then have "create_all_handlers f c (register_server_sigint g) = Inr (server_table s, glob w)"
    using server_init_Inr by blast
  from create_all_keeps [OF this]
  show "sig_actions (glob w) = (sig_actions g)(SIGINT := Some server_sigint)" "core (glob w) = core g"
    by (simp_all add: register_server_sigint_def)
qed

lemma served_alive:
  assumes "serve_forever f cs api https_api c g = Inr (Running w)" and "pool_run B (start_pool w) as p"
  shows "accept_alive http_acceptor HttpAcceptor p \<longleftrightarrow>
      accepting (http_acceptor (srv w)) \<and> AcceptHTTP True \<notin> set (done_labels as)"
    and "accept_alive https_acceptor HttpsAcceptor p \<longleftrightarrow>
      accepting (https_acceptor (srv w)) \<and> AcceptHTTPS True \<notin> set (done_labels as)"
proof -
  note ok = served_pool_ok(1) [OF assms(1) pool_run.pool_nil]
  have "accept_alive acc src (start_pool w) \<longleftrightarrow> accepting (acc (srv w))" for acc src
    using runs_start [of w] by (simp add: accept_alive_def)
  then show "accept_alive http_acceptor HttpAcceptor p \<longleftrightarrow>
      accepting (http_acceptor (srv w)) \<and> AcceptHTTP True \<notin> set (done_labels as)"
    "accept_alive https_acceptor HttpsAcceptor p \<longleftrightarrow>
      accepting (https_acceptor (srv w)) \<and> AcceptHTTPS True \<notin> set (done_labels as)"
    using http.alive_run [OF assms(2) ok] https.alive_run [OF assms(2) ok] by simp_all
qed

end
