(* ===== verification/Responses.thy ===== *)
theory Responses
  imports Pool_Progress
begin

text \<open>
  What the sessions of a running server put on the wire: which status codes, and that every response
  of a server without proxy is complete for the client, its \<open>Content-Length\<close> the length of its body;
  and when the connection is shut down.
\<close>

section \<open>What the handlers answer\<close>

definition statuses :: "nat set" where
  "statuses = {200, 400, 404, 500}"

lemma File_status:
  assumes "beast_laws B" and "File_handle_request B fs h request = Inr r"
  shows "res_result r \<in> statuses"
  using assms
  by (auto simp: File_handle_request_def send_file_def rbind_eq_Inr_iff Let_def statuses_def ok_response_sel
      error_responses_result split: if_splits option.splits)

lemma handle_request_status:
  assumes B: "beast_laws B" and "handle_request B E g h request = Inr r" and "\<forall>p. h \<noteq> Proxy p"
  shows "res_result r \<in> statuses"
proof -
  have ok: "res_result (ok_response B m t) \<in> statuses" and nf: "res_result (not_found_error B) \<in> statuses" for m t
    using B by (simp_all add: statuses_def ok_response_sel error_responses_result)
  show ?thesis
  proof (cases h)
    case (CompressedFile f)
    with assms show ?thesis
      by (auto simp: CompressedFile_handle_request_def rbind_eq_Inr_iff Let_def dest: File_status [OF B] split: if_splits)
  qed (use assms ok nf File_status [OF B] in \<open>auto simp: Echo_handle_request_def SleepEcho_handle_request_def
    NotFound_handle_request_def Health_handle_request_def Status_handle_request_def\<close>)
qed

section \<open>What a session sends\<close>

definition no_proxy :: "(string \<times> handler) list \<Rightarrow> bool" where
  "no_proxy table \<longleftrightarrow> list_all (\<lambda>(u, h). case h of Proxy x \<Rightarrow> False | _ \<Rightarrow> True) table"

lemma no_proxy_found:
  assumes "no_proxy table" and "find_handler f table target = Inr (u, Some h)"
  shows "\<forall>x. h \<noteq> Proxy x"
  using assms(1) route.registered [OF assms(2)] by (auto simp: no_proxy_def list_all_iff)

text \<open>A response as a client can read it: of a known status, and with the length of its body.\<close>

definition readable :: "beast \<Rightarrow> http_response \<Rightarrow> bool" where
  "readable B r \<longleftrightarrow> framed B r \<and> res_result r \<in> statuses"

lemma readable_errors:
  "beast_laws B \<Longrightarrow> readable B (bad_request B)" "beast_laws B \<Longrightarrow> readable B (not_found_error B)"
  by (simp_all add: readable_def statuses_def error_responses_result)

lemma readable_connection:
  assumes "beast_laws B" and "readable B r"
  shows "readable B (r\<lparr>res_fields := set_field B ''Connection'' v (res_fields r)\<rparr>)"
  using assms by (simp add: readable_def framed_def find_set)

lemma response_for_readable:
  assumes "beast_laws B" and "no_proxy table" and "response_for B E table request g = Inr (r, g')"
  shows "readable B r"
proof -
  obtain u c where found: "find_handler (oob E) table (req_target request) = Inr (u, c)"
    using assms(3) by (auto simp: response_for_def rbind_eq_Inr_iff)
  show ?thesis
  proof (cases c)
    case None
    with assms found show ?thesis by (auto simp: response_for_def readable_errors)
  next
    case (Some h)
    with assms(3) found obtain r0 where r0: "handle_request B E g h request = Inr r0"
      and r: "\<exists>v. r = r0\<lparr>res_fields := set_field B ''Connection'' v (res_fields r0)\<rparr>"
      by (auto simp: response_for_def get_response_def rbind_eq_Inr_iff)
    have "\<forall>x. h \<noteq> Proxy x" using no_proxy_found [OF assms(2)] found Some by blast
    then have "readable B r0"
      using handle_request_framed [OF assms(1) r0] handle_request_status [OF assms(1) r0] by (simp add: readable_def)
    with r readable_connection [OF assms(1)] show ?thesis by auto
  qed
qed

lemma replies_readable:
  assumes "beast_laws B" and "no_proxy table" and "r \<in> set (replies B table x)"
  shows "readable B r"
  using assms(3) response_for_readable [OF assms(1,2)] readable_errors(1) [OF assms(1)]
  by (cases "(B, table, x)" rule: replies.cases) (auto split: sum.split_asm dest: sym)

lemma transcript_readable:
  "beast_laws B \<Longrightarrow> no_proxy table \<Longrightarrow> r \<in> set (transcript B table tr) \<Longrightarrow> readable B r"
  by (auto simp: transcript_def intro: replies_readable)

section \<open>What the sessions of the pool send\<close>

text \<open>
  A session of the pool with the completions it was called back for: its responses are readable, none
  but the last one is of the kind that ends the connection, and its stream is shut down exactly if
  the last completion was the end of the client's stream or the write of such a response.
\<close>

definition well_sent :: "beast \<Rightarrow> shutdown_type \<Rightarrow> event list \<Rightarrow> session \<Rightarrow> bool" where
  "well_sent B kind evs s \<longleftrightarrow> (\<forall>x \<in> set (written s). readable B (fst x)) \<and>
     (\<forall>x \<in> set (butlast (written s)). \<not> closes B (fst x)) \<and>
     shut s = (if ended B evs (map fst (written s)) then Some kind else None)"

lemma pool_well_sent:
  assumes "beast_laws B" and "no_proxy table" and ok: "pool_ok B c table as p"
    and i: "i < length (sessions (shared p))" "sessions (shared p) ! i = (t, s)"
  shows "well_sent B (kind_of t) (done_events i as) s"
proof -
  from pool_ok_session(1) [OF ok i] obtain tr s0
    where run: "session_run B (ops_of t) (started t c table) tr s0" and evs: "map snd tr = done_events i as"
      and view: "session_view (jobs p) i s s0"
    by (auto simp: session_ok_def)
  have same: "written s = written s0" "shut s = shut s0" using view by (auto simp: session_view_def split: if_splits)
  have "shut s0 = (if ended B (map snd tr) (map fst (written s0)) then Some (kind_of t) else None)"
    by (rule session_stream.run_shuts [OF stream_of run assms(1) started_ok]) simp_all
  moreover have "\<forall>x \<in> set (written s0). snd x = closes B (fst x)"
    using session_stream.run_closes [OF stream_of run assms(1)] by simp
  then have "\<forall>x \<in> set (butlast (written s0)). \<not> closes B (fst x)"
    using session_stream.life_ok_run [OF stream_of run started_ok] by (simp add: life_ok_def) (meson in_set_butlastD)
  moreover have "map fst (written s0) = transcript B table tr"
    using session_stream.run_written [OF stream_of run] by simp
  then have "\<forall>x \<in> set (written s0). readable B (fst x)"
    using transcript_readable [OF assms(1,2)] by (metis imageI list.set_map)
  ultimately show ?thesis by (simp add: well_sent_def same evs)
qed

end
