(* ===== verification/Site.thy ===== *)
theory Site
  imports Grammar Pool_Refinement Responses
begin

text \<open>
  From the configuration to the answer: which \<open>location\<close> of a configuration a request belongs to,
  that the server built from the configuration gives the request to the handler of that location,
  and that a thread that is idle can carry the request of a waiting session through to the response.
\<close>

section \<open>The location of a request\<close>

text \<open>The locations the server makes a handler for.\<close>

definition known_locations :: "nginx_config \<Rightarrow> (string \<times> string \<times> nginx_config option) list" where
  "known_locations config = filter (\<lambda>(p, n, c). n \<in> handler_names) (locations config)"

text \<open>
  The location of a path is the first one with the longest URL that matches it, all URLs with their
  slashes put right.
\<close>

definition location_for :: "nginx_config \<Rightarrow> string \<Rightarrow> string \<times> string \<times> nginx_config option \<Rightarrow> bool" where
  "location_for config path l \<longleftrightarrow> (\<exists>i < length (known_locations config). known_locations config ! i = l \<and>
     url_matches (path @ [ch_slash]) (clean_url (fst l)) \<and>
     (\<forall>l' \<in> set (known_locations config). url_matches (path @ [ch_slash]) (clean_url (fst l')) \<longrightarrow>
        length (clean_url (fst l')) \<le> length (clean_url (fst l))) \<and>
     (\<forall>j < i. clean_url (fst (known_locations config ! j)) \<noteq> clean_url (fst l)))"

text \<open>No URL of the configuration is as long as the address space.\<close>

definition short_urls :: "nginx_config \<Rightarrow> bool" where
  "short_urls config \<longleftrightarrow> (\<forall>l \<in> set (locations config). length (fst l) < 2 ^ 64)"

definition entry_of :: "string \<times> string \<times> nginx_config option \<Rightarrow> string \<times> string \<times> handler \<Rightarrow> bool" where
  "entry_of l e \<longleftrightarrow> (case l of (p, n, c) \<Rightarrow> case e of (u, n', h) \<Rightarrow>
     u = clean_url p \<and> n' = n \<and> (\<exists>block. c = Some block \<and> create_handler u n block = Inr (Some h)))"

lemma create_handler_None: "create_handler u n c = Inr None \<longleftrightarrow> n \<notin> handler_names"
  by (auto simp: create_handler_def handler_names_def rbind_eq_Inr_iff)

lemma location_entry_known:
  assumes "location_entry f (p, n, c) = Inr es" and "length p < 2 ^ 64"
  shows "if n \<in> handler_names then \<exists>e. es = [e] \<and> entry_of (p, n, c) e else es = []"
proof -
  obtain block r where c: "c = Some block" and "create_handler (normalize_url f p) n block = Inr r"
    "es = (case r of None \<Rightarrow> [] | Some h \<Rightarrow> [(normalize_url f p, n, h)])"
    using assms(1) by (cases c) (auto simp: rbind_eq_Inr_iff)
  then have r: "create_handler (clean_url p) n block = Inr r"
    and es: "es = (case r of None \<Rightarrow> [] | Some h \<Rightarrow> [(clean_url p, n, h)])"
    unfolding normalize_url_eq [OF assms(2)] by auto
  show ?thesis
    using r es created_handler(2) by (cases r) (auto simp: c entry_of_def create_handler_None)
qed

lemma collect_known:
  assumes "collect (location_entry f) ls = Inr es" and "\<forall>l \<in> set ls. length (fst l) < 2 ^ 64"
  shows "list_all2 entry_of (filter (\<lambda>(p, n, c). n \<in> handler_names) ls) es"
  using assms
proof (induction ls arbitrary: es)
  case (Cons l ls)
  obtain p n c where l: "l = (p, n, c)" by (cases l)
  obtain xs ys where "location_entry f l = Inr xs" "collect (location_entry f) ls = Inr ys" "es = xs @ ys"
    using Cons.prems(1) by (auto simp: rbind_eq_Inr_iff)
  with Cons location_entry_known [of f p n c xs] show ?case by (auto simp: l split: if_splits)
qed simp

lemma map_of_first:
  "i < length xs \<Longrightarrow> fst (xs ! i) = u \<Longrightarrow> (\<And>j. j < i \<Longrightarrow> fst (xs ! j) \<noteq> u) \<Longrightarrow> map_of xs u = Some (snd (xs ! i))"
proof (induction xs arbitrary: i)
  case (Cons x xs)
  show ?case
  proof (cases i)
    case 0
    with Cons.prems show ?thesis by (cases x) simp
  next
    case (Suc k)
    have "fst x \<noteq> u" using Cons.prems(3) [of 0] Suc by simp
    moreover have "fst (xs ! j) \<noteq> u" if "j < k" for j using Cons.prems(3) [of "Suc j"] that Suc by simp
    then have "map_of xs u = Some (snd (xs ! k))" using Cons.prems(1,2) Suc by (intro Cons.IH) simp_all
    ultimately show ?thesis by (cases x) (simp add: Suc)
  qed
qed simp

lemma known_entry:
  assumes "create_all_handlers f config g = Inr (table, g')" and "short_urls config"
  shows "\<exists>es. list_all2 entry_of (known_locations config) es \<and> table = map (\<lambda>(u, n, h). (u, h)) es"
proof -
  obtain es where "collect (location_entry f) (locations config) = Inr es" "table = map (\<lambda>(u, n, h). (u, h)) es"
    using assms(1)
    by (auto simp: create_all_handlers_def create_all_loop_eq rbind_eq_Inr_iff locations_def add_entries_def)
  with collect_known [of f "locations config" es] assms(2) show ?thesis
    by (auto simp: short_urls_def known_locations_def)
qed

lemma entry_of_fst: "entry_of l e \<Longrightarrow> fst e = clean_url (fst l)"
  by (auto simp: entry_of_def split: prod.splits)

text \<open>The handler of the location is what the look-up of a session finds.\<close>

lemma location_found:
  assumes "create_all_handlers f config g = Inr (table, g')" and "short_urls config"
    and "strip_query target = Inr path" and "location_for config path (p, n, c)"
  shows "\<exists>h block. c = Some block \<and> create_handler (clean_url p) n block = Inr (Some h) \<and>
    find_handler oob' table target = Inr (clean_url p, Some h)"
proof -
  obtain es where es: "list_all2 entry_of (known_locations config) es" and table: "table = map (\<lambda>(u, n, h). (u, h)) es"
    using known_entry [OF assms(1,2)] by blast
  obtain i where i: "i < length es" "known_locations config ! i = (p, n, c)"
    and matches: "url_matches (path @ [ch_slash]) (clean_url p)"
    and longest: "\<And>l. l \<in> set (known_locations config) \<Longrightarrow> url_matches (path @ [ch_slash]) (clean_url (fst l)) \<Longrightarrow>
      length (clean_url (fst l)) \<le> length (clean_url p)"
    and first: "\<And>j. j < i \<Longrightarrow> clean_url (fst (known_locations config ! j)) \<noteq> clean_url p"
    using assms(4) list_all2_lengthD [OF es] unfolding location_for_def by auto
  have entry: "entry_of (known_locations config ! j) (es ! j)" if "j < length es" for j
    using list_all2_nthD2 [OF es that] .
  have fst: "fst (table ! j) = clean_url (fst (known_locations config ! j))" if "j < length es" for j
    using entry_of_fst [OF entry [OF that]] that by (simp add: table case_prod_unfold)
  obtain h block where h: "c = Some block" "create_handler (clean_url p) n block = Inr (Some h)" "snd (table ! i) = h"
    using entry [OF i(1)] i by (auto simp: entry_of_def table split: prod.splits)
  have map_of: "map_of table (clean_url p) = Some h"
    using map_of_first [of i table "clean_url p"] i fst first h(3) by (simp add: table)
  have "find_handler oob' table target = Inr (clean_url p, Some h)"
  proof (rule route.longest [OF assms(3) matches map_of])
    fix q h'
    assume q: "(q, h') \<in> set table" "url_matches (path @ [ch_slash]) q"
    then obtain j where "j < length es" "q = fst (table ! j)" by (auto simp: in_set_conv_nth table)
    then show "length q \<le> length (clean_url p)"
      using longest [of "known_locations config ! j"] fst q(2) list_all2_lengthD [OF es] by simp
  qed
  with h show ?thesis by simp
qed

text \<open>A path belongs to a location unless no location matches it, and then no handler is found.\<close>

lemma location_exists:
  assumes "l \<in> set (known_locations config)" and "url_matches (path @ [ch_slash]) (clean_url (fst l))"
  shows "\<exists>l'. location_for config path l'"
proof -
  let ?K = "known_locations config" and ?u = "\<lambda>i. clean_url (fst (known_locations config ! i))"
  let ?P = "\<lambda>i. i < length ?K \<and> url_matches (path @ [ch_slash]) (?u i)"
  have "length u < length path + 3" if "url_matches (path @ [ch_slash]) u" for u
    using url_matches_slash_prefix [OF that] by (auto dest: prefix_length_le)
  moreover obtain k where "?P k" using assms by (auto simp: in_set_conv_nth)
  ultimately obtain m where m: "?P m" "\<And>i. ?P i \<Longrightarrow> length (?u i) \<le> length (?u m)"
    using ex_has_greatest_nat [of ?P k "\<lambda>i. length (?u i)" "length path + 3"] by blast
  have "\<exists>i. i < length ?K \<and> ?u i = ?u m" using m(1) by blast
  then obtain i where i: "i < length ?K" "?u i = ?u m" and least: "\<And>j. j < i \<Longrightarrow> \<not> (j < length ?K \<and> ?u j = ?u m)"
    unfolding exists_least_iff [of "\<lambda>i. i < length ?K \<and> ?u i = ?u m"] by blast
  have first: "?u j \<noteq> ?u m" if "j < i" for j using least [OF that] that i(1) by simp
  have "length (clean_url (fst l')) \<le> length (?u i)"
    if "l' \<in> set ?K" "url_matches (path @ [ch_slash]) (clean_url (fst l'))" for l'
    using that m(2) i(2) by (auto simp: in_set_conv_nth)
  with i first m(1) show ?thesis
    unfolding location_for_def by (intro exI [of _ "?K ! i"] exI [of _ i]) simp
qed

lemma unmatched_found:
  assumes "create_all_handlers f config g = Inr (table, g')" and "short_urls config"
    and "strip_query target = Inr path"
    and "\<forall>l \<in> set (known_locations config). \<not> url_matches (path @ [ch_slash]) (clean_url (fst l))"
  shows "\<exists>u. find_handler oob' table target = Inr (u, None)"
proof -
  obtain es where es: "list_all2 entry_of (known_locations config) es" and table: "table = map (\<lambda>(u, n, h). (u, h)) es"
    using known_entry [OF assms(1,2)] by blast
  have "\<not> url_matches (path @ [ch_slash]) q" if q: "(q, h) \<in> set table" for q h
  proof -
    obtain j where j: "j < length es" "q = fst (es ! j)"
      using q by (auto simp: table in_set_conv_nth case_prod_unfold)
    with entry_of_fst [OF list_all2_nthD2 [OF es j(1)]] list_all2_lengthD [OF es] assms(4) show ?thesis by simp
  qed
  then show ?thesis by (intro route.unmatched [OF assms(3)]) blast
qed

section \<open>Answering in the pool\<close>

lemma unrouted_run:
  assumes th: "th < length (jobs p)" "jobs p ! th = None"
    and i: "i < length (sessions (shared p))" and s: "sessions (shared p) ! i = (t, s)" and read: "pending s = PendingRead"
    and E: "log_copy E = None"
    and found: "find_handler (oob E) (urlToHandler s) (req_target request) = Inr (u, None)"
  shows "\<exists>s2. thread_run B th p
      [Take th (OnSession i (ReadDone None request E)), Done th (OnSession i (ReadDone None request E))]
      (p\<lparr>shared := set_session i t s2 (shared p)\<rparr>) \<and>
    written s2 = written s @ [(not_found_error B, closes B (not_found_error B))]"
proof -
  let ?ev = "ReadDone None request E"
  let ?s2 = "s\<lparr>sess_req := request, sess_res := not_found_error B,
    pending := PendingWrite (closes B (not_found_error B)),
    written := written s @ [(not_found_error B, closes B (not_found_error B))]\<rparr>"
  have "on_read B E (ops_of t) None (s\<lparr>pending := Idle, sess_req := request\<rparr>) (glob (shared p)) =
      Inr (?s2, glob (shared p))"
    using found
    by (simp add: on_read_def construct_response_def session_stream.arm_write [OF stream_of] closes_def Let_def)
  with session_step.read_done [OF read, of B "ops_of t" "glob (shared p)" None request E]
  have step: "session_step B (ops_of t) s (glob (shared p)) ?ev (Inr (?s2, glob (shared p)))" by simp
  let ?p1 = "taken p th i t s ?ev"
  have "pool_step B ?p1 (Done th (OnSession i ?ev))
      (?p1\<lparr>shared := set_session i t ?s2 (shared ?p1), jobs := (jobs ?p1)[th := None]\<rparr>)"
    by (rule pool_step.done_unrouted [where pnd = "pending s" and t = t and s = "s\<lparr>pending := Idle\<rparr>" and g' = "glob (shared p)"])
      (use th i step found in \<open>simp_all add: taken_def\<close>)
  moreover have "?p1\<lparr>shared := set_session i t ?s2 (shared ?p1), jobs := (jobs ?p1)[th := None]\<rparr> =
      p\<lparr>shared := set_session i t ?s2 (shared p)\<rparr>"
    using th by (simp add: taken_def set_session_def list_update_same_conv)
  moreover have "pool_step B p (Take th (OnSession i ?ev)) ?p1"
    by (rule take_request [OF th i s]) (simp_all add: read E)
  ultimately have "pool_run B p [Take th (OnSession i ?ev), Done th (OnSession i ?ev)]
      (p\<lparr>shared := set_session i t ?s2 (shared p)\<rparr>)" using pool_run2 by metis
  then show ?thesis by (intro exI [of _ ?s2]) (simp add: thread_runI)
qed

text \<open>A handler that gives no response: its exception leaves the thread, or the thread waits for ever.\<close>

lemma failing_run:
  assumes th: "th < length (jobs p)" "jobs p ! th = None"
    and i: "i < length (sessions (shared p))" and s: "sessions (shared p) ! i = (t, s)" and read: "pending s = PendingRead"
    and E: "log_copy E = None"
    and found: "find_handler (oob E) (urlToHandler s) (req_target request) = Inr (u, Some h)"
    and handle: "handle_request B E (glob (shared p)) h request = Inl e"
  shows "\<exists>p'. thread_run B th p [Take th (OnSession i (ReadDone None request E))] p' \<and>
    (if e = NoReturn then thread_waits B p' th else thread_throws B p' th e)"
proof -
  let ?ev = "ReadDone None request E"
  let ?p = "taken p th i t s ?ev"
  have "on_read B E (ops_of t) None (s\<lparr>pending := Idle, sess_req := request\<rparr>) (glob (shared p)) = Inl e"
    using found handle
    by (simp add: on_read_def construct_response_eq response_for_def get_response_def)
  with session_step.read_done [OF read, of B "ops_of t" "glob (shared p)" None request E]
  have step: "session_step B (ops_of t) s (glob (shared p)) ?ev (Inl e)" by simp
  have job: "jobs ?p ! th = Some (SessionJob i (pending s) ?ev Handling)" "i < length (sessions (shared ?p))"
    "sessions (shared ?p) ! i = (t, s\<lparr>pending := Idle\<rparr>)" "glob (shared ?p) = glob (shared p)"
    using th i by (simp_all add: taken_def)
  have "thread_waits B ?p th" if "e = NoReturn"
    by (rule thread_waits.session_waits [OF job(1-3)]) (use step that in \<open>simp add: job(4)\<close>)
  moreover have "thread_throws B ?p th e" if "e \<noteq> NoReturn"
    by (rule thread_throws.session_throws [OF job(1-3) _ that]) (use step in \<open>simp add: job(4)\<close>)
  moreover have "pool_step B p (Take th (OnSession i ?ev)) ?p"
    by (rule take_request [OF th i s]) (simp_all add: read E)
  then have "thread_run B th p [Take th (OnSession i ?ev)] ?p" by (simp add: thread_runI pool_run1)
  ultimately show ?thesis by auto
qed

text \<open>What a thread does for a request a handler answers; the event ends with what was copied for it.\<close>

definition answer_actions :: "nat \<Rightarrow> nat \<Rightarrow> http_request \<Rightarrow> env \<Rightarrow> handler \<Rightarrow> globals \<Rightarrow> action list" where
  "answer_actions th i request E h g =
     [Take th (OnSession i (ReadDone None request E))] @ handler_actions th h @
     [Done th (OnSession i (ReadDone None request (with_copy E h g)))]"

lemma answer_run:
  assumes th: "th < length (jobs p)" "jobs p ! th = None"
    and i: "i < length (sessions (shared p))" and s: "sessions (shared p) ! i = (t, s)" and read: "pending s = PendingRead"
    and E: "log_copy E = None"
    and found: "find_handler (oob E) (urlToHandler s) (req_target request) = Inr (u, Some h)"
    and handle: "handle_request B E (glob (shared p)) h request = Inr r"
  shows "\<exists>s2. thread_run B th p (answer_actions th i request E h (glob (shared p)))
      (p\<lparr>shared := (set_session i t s2 (shared p))\<lparr>glob := record_url (record_time E) request r (glob (shared p))\<rparr>\<rparr>) \<and>
    written s2 = written s @ [(sent B h r, closes B (sent B h r))]"
proof -
  let ?E = "with_copy E h (glob (shared p))"
  have "handle_request B ?E (glob (shared p)) h request = Inr r" using with_copy_handles [OF E] handle by simp
  then obtain s2 where step: "session_step B (ops_of t) s (glob (shared p)) (ReadDone None request ?E)
      (Inr (s2, record_url (record_time ?E) request r (glob (shared p))))"
    and written: "written s2 = written s @ [(sent B h r, closes B (sent B h r))]"
    using read_sends [OF read, of ?E request u h B "glob (shared p)" r t] found by auto
  have "s\<lparr>pending := pending s\<rparr> = s" by simp
  then have same: "s\<lparr>pending := PendingRead\<rparr> = s" by (simp only: read)
  let ?p1 = "recording_pool p th i request ?E t s r"
  let ?p2 = "?p1\<lparr>shared := (set_session i t s2 (shared ?p1))\<lparr>glob := record_url (record_time ?E) request r (glob (shared ?p1))\<rparr>,
    jobs := (jobs ?p1)[th := None]\<rparr>"
  have "pool_step B ?p1 (Done th (OnSession i (ReadDone None request ?E))) ?p2"
    using i th step same
    by (intro pool_step.done_recorded [where g = "glob (shared p)" and t = t and s = "s\<lparr>pending := Idle\<rparr>"
          and pnd = PendingRead and g' = "record_url (record_time ?E) request r (glob (shared p))"])
      (simp_all add: recording_pool_def)
  from pool_run.pool_snoc [OF reach_recording [OF th i s read found handle E] this]
  have "thread_run B th p (answer_actions th i request E h (glob (shared p))) ?p2"
    by (intro thread_runI) (auto simp: answer_actions_def)
  moreover have "(jobs p)[th := None] = jobs p" using th by (metis list_update_id)
  then have "?p2 = p\<lparr>shared := (set_session i t s2 (shared p))\<lparr>glob := record_url (record_time E) request r (glob (shared p))\<rparr>\<rparr>"
    by (simp add: recording_pool_def set_session_def)
  ultimately show ?thesis using written by auto
qed

section \<open>A static site\<close>

lemma static_created:
  assumes "create_handler u ''StaticHandler'' block = Inr (Some h)" and "file_root block = Inr root"
  obtains fh where "h = File fh" and "files_prefix fh = drop_trailing_slash u" and "linux_dir fh = root"
    and "\<not> invalid_config fh"
  using assms by (auto simp: create_handler_def rbind_eq_Inr_iff FileHandler_def keep_alive_of_config)

lemma served_table:
  assumes "serve_forever f cs api https_api c g = Inr (Running w)"
  shows "\<exists>g1 g'. create_all_handlers f c g1 = Inr (server_table (srv w), g')"
  using serve_forever_Running [OF assms] server_init_Inr by metis

lemma served_location:
  assumes "serve_forever f cs api https_api config g = Inr (Running w)" and "short_urls config"
    and "strip_query target = Inr path" and "location_for config path (p, n, c)"
  obtains h block where "c = Some block" and "create_handler (clean_url p) n block = Inr (Some h)"
    and "find_handler oob' (server_table (srv w)) target = Inr (clean_url p, Some h)"
proof -
  obtain g1 g2 where "create_all_handlers f config g1 = Inr (server_table (srv w), g2)"
    using served_table [OF assms(1)] by blast
  from location_found [OF this assms(2-4), of oob'] that show ?thesis by blast
qed

lemma sent_sel:
  assumes "beast_laws B"
  shows "res_result (sent B h r) = res_result r" and "res_body (sent B h r) = res_body r"
    and "find_field B ''Content-Type'' (res_fields (sent B h r)) = find_field B ''Content-Type'' (res_fields r)"
    and "framed B (sent B h r) = framed B r"
  using assms by (simp_all add: sent_def framed_def find_set)

section \<open>From main\<close>

text \<open>The state of the process when \<open>main\<close> calls \<open>serve_forever\<close>.\<close>

definition main_globals :: globals where
  "main_globals = new_globals\<lparr>core := init_logger new_log_core\<rparr>"

lemma main_parsed:
  assumes "open_file name = Some (write_config config)" and "printable_config config" and "statements config \<noteq> []"
  shows "main_program open_file f cs api https_api 2 [prog, name] =
    rbind (serve_forever f cs api https_api config main_globals) (\<lambda>r. Inr (Returned r))"
  using assms Parse_print [OF assms(2,3), of "[]"]
  by (simp add: main_program_def parse_args_def Parse_file_def main_globals_def)

lemma main_running:
  assumes "main_program open_file f cs api https_api argc argv = Inr (Returned (Running w))"
  obtains config where "serve_forever f cs api https_api config main_globals = Inr (Running w)"
proof -
  obtain x where "parse_args open_file argc argv (Some (NginxConfig [])) = Inr x"
    and "(case x of Exited n \<Rightarrow> Inr (Exited n) | Returned (_, _, None) \<Rightarrow> Inl NullDeref
      | Returned (_, _, Some config) \<Rightarrow>
          rbind (serve_forever f cs api https_api config main_globals) (\<lambda>r. Inr (Returned r))) = Inr (Returned (Running w))"
    using assms unfolding main_program_def Let_def new_globals_core main_globals_def [symmetric] rbind_eq_Inr_iff by blast
  then show ?thesis
    by (cases x) (auto simp: rbind_eq_Inr_iff split: prod.split_asm option.split_asm intro: that)
qed

text \<open>
  However long the program has been running and whatever its threads have done, a message of any
  severity goes once to the log file and once to the console.
\<close>

lemma messages_logged:
  assumes "main_program open_file f cs api https_api argc argv = Inr (Returned (Running w))"
    and "pool_run B (start_pool w) as p"
  shows "map snd (log_record render (core (glob (shared p))) m) =
    [render (file_format server_log_file) m, render ''=> %Message%'' m]"
proof -
  obtain config where "serve_forever f cs api https_api config main_globals = Inr (Running w)"
    using main_running [OF assms(1)] .
  from served_sigint(2) [OF this] served_log [OF this assms(2)] show ?thesis
    by (simp add: log_grows_def main_globals_def logged_once)
qed

end
