(* ===== verification/Spec2Isabelle.thy ===== *)
theory Spec2Isabelle
  imports Site
begin

text \<open>
  A verification of the web server in this repository (\<open>src/src\<close>, \<open>src/include\<close>): a configuration
  parser, a set of request handlers, sessions over TCP and TLS, and the server that ties them
  together on Boost.Asio and Boost.Beast.

  \<^bold>\<open>How the program works.\<close> \<open>main\<close> sets up the logger, reads the file named on the command line with
  \<open>NginxConfigParser\<close> into a tree of statements, \<open>NginxConfig\<close>, and calls \<open>server::serve_forever\<close>.
  The server looks up ports and certificates in the tree, makes a handler for every \<open>location\<close>
  block and starts to accept connections. Every connection is a session: it reads a request, looks
  the handler with the longest matching URL prefix up in the server's table, has it answer, writes
  the response and reads the next request or closes. Everything after the start is a callback of
  the event loop, run by four threads.

  \<^bold>\<open>The theories\<close>, in the order in which they build on each other:
  \<^item> \<open>Prelude\<close>: failures as values (\<open>cpp_error\<close>, \<open>res\<close>, \<open>rbind\<close>), a call that never returns
    (\<open>NoReturn\<close>) among them, the operations of
    \<open>std::string\<close>, \<open>std::stoi\<close> and \<open>std::to_string\<close>, shared lemmas and fact collections.
  \<^item> \<open>Istream\<close>: \<open>std::istream\<close> with \<open>get\<close>, \<open>peek\<close>, \<open>unget\<close> and its state bits.
  \<^item> \<open>Tokenizer\<close>: \<open>ParseToken\<close>, \<open>consumeEscapeChar\<close>, \<open>removeQuotes\<close> of \<open>parser.cc\<close>. No input makes it
    throw; every token uses up input; quoted and bare words are read back.
  \<^item> \<open>Token_Source\<close>: the locale \<open>token_source\<close>, what the parser relies on, interpreted on
    \<open>ParseToken\<close>; the sequence of all tokens of an input.
  \<^item> \<open>Config\<close>: the tree with \<open>get_str\<close> and \<open>get_num\<close> of \<open>config.cc\<close>, against a reference look-up.
  \<^item> \<open>Parser\<close>: \<open>Parse\<close>, which works through raw pointers into the tree, over an explicit store of
    blocks; \<open>Parse\<close> on a file name; \<open>parse_args\<close>.
  \<^item> \<open>Parser_Refinement\<close>: a parser on a stack of open blocks without pointers, the invariant of the
    store, and the simulation between the two.
  \<^item> \<open>Grammar\<close>: the grammar of configurations, soundness and completeness of the parser for it, and
    the round trip from a configuration through its text.
  \<^item> \<open>Http\<close>: messages, the interface to Boost.Beast with its documented laws, and the error
    responses of \<open>handler.cc\<close>.
  \<^item> \<open>Logger\<close>: the sinks \<open>init_logger\<close> registers and the severities of the macros of \<open>logger.h\<close>; a
    message goes once to the log file and once to the console.
  \<^item> \<open>Handler\<close>: the state of the base class, the static state of the process (\<open>globals\<close>) and the echo,
    sleeping echo, health, not found and status handlers; the status handler reads the shared log
    twice, and the page has the log it copied and the one it counted as two arguments.
  \<^item> \<open>File_Handler\<close>, \<open>Proxy_Handler\<close>: the static file handler, its compressing subclass and the
    reverse proxy, whose calls on the network return, throw or wait for ever.
  \<^item> \<open>Links\<close>: what rewriting the links of a page comes to, from the laws of \<open>boost::replace_all\<close>.
  \<^item> \<open>Dispatch\<close>: the virtual call of \<open>handle_request\<close> and \<open>get_response\<close>; the locale \<open>recording\<close>,
    what the sessions rely on, interpreted on it.
  \<^item> \<open>Routing\<close>: the first half of \<open>session::construct_response\<close>, against the longest matching prefix;
    the locale \<open>router\<close>, what sessions and server rely on, interpreted on it.
  \<^item> \<open>Session\<close>: the callbacks of \<open>session.cc\<close> over a table of virtual functions, the overrides of
    \<open>sessionTCP.cc\<close> and \<open>sessionSSL.cc\<close>; the locale \<open>session_stream\<close>, what the base class relies on,
    interpreted on both; the step relation of a session with its invariant.
  \<^item> \<open>Server\<close>: \<open>server.cc\<close> and \<open>main.cc\<close>: certificates, acceptors, handlers from the configuration,
    the signal handler, start-up, and the step relation in which accepts and the callbacks of all
    sessions interleave, a callback being one step.
  \<^item> \<open>Server_Invariants\<close>: the invariant of that loop, what can still throw, the log, when it can go on.
  \<^item> \<open>Thread_Pool\<close>: the four threads of \<open>serve_forever\<close>. A thread takes a completion, copies the log if
    it runs the status handler, returns from the handler, and ends the callback, as separate actions
    that interleave with those of the other threads; the append to the static log of requests
    happens at the end, with the log as it is then. Data races on the log (\<open>race\<close>), the runs without
    them (\<open>defined_run\<close>), threads that an exception leaves or that wait for ever, and the endings of
    the program. The invariant relates every session to a run of that session alone. The locale
    \<open>accept_port\<close> says what the two acceptors have in common; it is interpreted on HTTP and HTTPS.
  \<^item> \<open>Pool_Progress\<close>: the next action of a thread; runs of one thread alone; the two accesses of the
    status handler agree unless there was a race; a session whose stream is shut down is over.
  \<^item> \<open>Responses\<close>: the status codes and the framing of what the handlers, the sessions and with them the
    pool send, and when the sessions of the pool are shut down.
  \<^item> \<open>Pool_Refinement\<close>: the pool and the loop simulate each other as long as no handler reads the
    log; the reachable states in which two threads access the log at once, and those in which every
    thread waits for a proxied server; the accept loop of
    either port, in locales that build on each other (\<open>accept_steps\<close>, \<open>accept_behind\<close>,
    \<open>accept_loop_port\<close>).
  \<^item> \<open>Site\<close>: from the text of a configuration to the responses: the location a path belongs to, the
    handler the server made for it, and the actions of the thread that answers a request.
  \<^item> this theory: a small concrete server, and the properties that span components.

  \<^bold>\<open>State and operations.\<close> A class is a record with the names of its members, inheritance is
  record extension, an enumeration a datatype. What the code changes through pointers and
  references is passed in and returned. Undefined behaviour and exceptions are values of
  \<open>cpp_error\<close>, so that a null pointer, an index out of range or an uncaught exception is an outcome
  that the theorems speak about. A read past the end of a string is a parameter \<open>oob\<close>: the
  theorems hold whatever is found there. Ports are 16-bit words, \<open>size() - 1\<close> wraps at \<open>2 ^ 64\<close>,
  \<open>stoi\<close> is bounded by 32 bits; \<open>braces_depth\<close> and the loop counter of the status page are not
  bounded, they would need \<open>2 ^ 31\<close> nested blocks or requests to overflow.

  \<^bold>\<open>Loops.\<close> All loops are total functions: the tokenizer's and the parser's end because every
  pass that goes on has used up a character. \<open>tokens_of\<close> pulls at most one token per unread
  character and one more, which the locale proves to be enough. There is no fuel elsewhere. The
  event loop, which does not end, is a step relation, and so is the pool; the theorems about them
  hold for every finite run. A blocking call of the proxy that never returns is the value \<open>NoReturn\<close>
  of the callback, and the thread that runs it does no further action.

  \<^bold>\<open>Threads and memory.\<close> Callbacks of different sessions share nothing but the static log. An access
  to it is one action, and memory is sequentially consistent, as long as no two threads are at the
  log at once with one of them about to append (\<open>race\<close>): that is undefined behaviour, an ending of
  the program in \<open>pool_ends\<close>. What the theorems say about the contents of the log, about what the
  sessions make of it, about the equivalence with single steps and about the end of the program
  holds for \<open>defined_run\<close>, the runs that go on from no race; a run of one thread while no other is
  at the log is one (\<open>thread_run\<close>). \<open>pool_run\<close> are all interleavings of the actions, also beyond a
  race; the theorems over it are about sessions, accepts and framing.

  \<^bold>\<open>Outside code.\<close> Boost.Beast (record \<open>beast\<close>, laws \<open>beast_laws\<close>, \<open>trace_laws\<close>),
  \<open>boost::replace_all\<close> (\<open>replace_laws\<close>), the file system (\<open>file_system\<close>, \<open>fs_answers\<close>), gzip
  (\<open>gzip_laws\<close>), how Boost.Log renders a record, the network of the proxy (\<open>network\<close>), sockets
  (\<open>socket_api\<close>), certificate files and OpenSSL (\<open>cert_store\<close>) are parameters. The laws are documented
  behaviour; \<open>ref_beast\<close>, \<open>ref_replace\<close> and \<open>demo_fs\<close> show that they can be met, and the witnesses
  use them.

  \<^bold>\<open>What is shown\<close>, by part:
  \<^item> parser: it always returns, implements the parser without pointers, accepts exactly the
    grammar, reads back what is written; a word cut off by the end of the file is lost, and a
    parse error does not stop the program;
  \<^item> configuration: the value found, the one way a look-up can crash, the range of numbers;
  \<^item> handlers: what each answers on each branch, where the file handler throws, what the proxy
    sends on and passes back, where its \<open>Content-Length\<close> is wrong;
  \<^item> routing: the longest prefix, independence of the out-of-bounds read, the rest of the target
    behind the prefix always exists; the query is cut right only in the top directory;
  \<^item> sessions: one response per request in order, when the connection ends, no operation and no
    thread at work for it after that, keep-alive;
  \<^item> server: the table and the handlers it builds, when certificates are loaded, what start-up
    leaves;
  \<^item> the program from end to end, from the text of the configuration to the response and under any
    interleaving that came before: what becomes of a request, whatever it is, and that a file of a
    static location is sent; that clients can tell where each response ends;
  \<^item> threads: the invariant of every reachable state, what each session does in it, the equivalence
    with callbacks run one at a time, the ways in which the program can end, when it stops
    accepting, what the log holds, that the status page is made of one log, that nothing orders the
    appends to the log, and that a proxied server that never answers can stop all threads.

  \<^bold>\<open>Not modelled.\<close> The individual log messages, on which no state depends, with the times and
  addresses that only they show; the bytes of HTTP on the wire and the buffer of a session, which
  belong to Beast (\<open>write_response\<close> and \<open>write_request\<close> of the record \<open>beast\<close> stand for the text of a
  message). Within the pool a callback other than
  \<open>get_response\<close> is one action: it touches only its own session or acceptor. What a data race on
  the log does to memory is outside any semantics: it is an ending, not a state to go on from.
  Running out of memory is not modelled.
\<close>

section \<open>Fixtures\<close>

text \<open>A configuration with one static location, and a system on which everything succeeds.\<close>

definition demo_config :: nginx_config where
  "demo_config = NginxConfig
     [NginxConfigStatement [''location'', ''/static/'', ''StaticHandler'']
        (Some (NginxConfig [NginxConfigStatement [''root'', ''/srv''] None]))]"

definition demo_api :: socket_api where
  "demo_api = \<lparr>open_fails = (\<lambda>p. False), reuse_fails = (\<lambda>p. False), bind_fails = (\<lambda>p. False),
     listen_fails = (\<lambda>p. False)\<rparr>"

definition demo_certs :: cert_store where
  "demo_certs = \<lparr>cs_exists = (\<lambda>p. Inr False), cs_regular = (\<lambda>p. Inr False), cs_read = (\<lambda>p. []),
     cs_use = (\<lambda>c k. False)\<rparr>"

definition demo_world :: world where
  "demo_world = \<lparr>srv = \<lparr>server_config = demo_config, port = 80, https_port = 443,
       http_acceptor = \<lparr>is_open = True, bound_port = Some 80, listening = True, accepting = True\<rparr>,
       https_acceptor = \<lparr>is_open = True, bound_port = Some 443, listening = True, accepting = False\<rparr>,
       serving = True, serving_https = False, server_table = [(''/static'', File demo_file_handler)]\<rparr>,
     sessions = [], glob = \<lparr>url_infos = [], urlToHandlerName = [(''/static'', ''StaticHandler'')],
       sig_actions = (\<lambda>s. None)(SIGINT := Some server_sigint), core = init_logger new_log_core\<rparr>\<rparr>"

lemma demo_handlers:
  "create_all_handlers f demo_config (register_server_sigint demo_globals) =
     Inr ([(''/static'', File demo_file_handler)], glob demo_world)"
proof -
  have "normalize_url f ''/static/'' = ''/static''"
    by (simp add: normalize_url_eq) code_simp
  moreover have "create_handler ''/static'' ''StaticHandler'' (NginxConfig [NginxConfigStatement [''root'', ''/srv''] None]) =
      Inr (Some (File demo_file_handler))"
    by code_simp
  ultimately show ?thesis
    by (simp add: create_all_handlers_def demo_config_def demo_globals_def new_globals_def demo_world_def
        register_server_sigint_def Let_def)
qed

lemma demo_numbers: "get_num demo_config ''port'' = Inr 80" "get_num demo_config ''httpsPort'' = Inr 443"
  by code_simp+

lemma demo_serves:
  "serve_forever f demo_certs demo_api demo_api demo_config demo_globals = Inr (Running demo_world)"
proof -
  have "load_server_certificate demo_certs demo_config = Inr False" by code_simp
  moreover have "start_server f demo_api demo_api demo_config (register_server_sigint demo_globals) False = Inr demo_world"
    by (simp add: start_server_def server_init_def demo_handlers demo_numbers bind_acceptor_def demo_api_def
        new_acceptor_def start_accepting_def start_accepting_https_def local_port_def Let_def)
      (simp add: demo_world_def)
  ultimately show ?thesis by (simp add: serve_forever_def)
qed

text \<open>A run of that server: one connection is accepted and its session begins to read.\<close>

definition demo_reading :: world where
  "demo_reading = demo_world\<lparr>sessions :=
     [(TCP, do_read tcp_ops (startTCP (sessionTCP demo_config (server_table (srv demo_world)))\<lparr>pending := Idle\<rparr>))]\<rparr>"

lemma demo_accept: "server_step B demo_world (AcceptHTTP False)
    (Inr (demo_world\<lparr>sessions := [(TCP, startTCP (sessionTCP demo_config (server_table (srv demo_world))))]\<rparr>))"
  using server_step.accept_http [of demo_world False B]
  by (simp add: demo_world_def handle_accept_def accepted_def start_accepting_def Let_def)

lemma demo_dispatch: "server_step B
    (demo_world\<lparr>sessions := [(TCP, startTCP (sessionTCP demo_config (server_table (srv demo_world))))]\<rparr>)
    (OnSession 0 Dispatched) (Inr demo_reading)"
proof -
  let ?s = "startTCP (sessionTCP demo_config (server_table (srv demo_world)))"
  have "session_step B (ops_of TCP) ?s (glob demo_world) Dispatched
      (Inr (do_read tcp_ops (?s\<lparr>pending := Idle\<rparr>), glob demo_world))"
    using session_step.start_read [of ?s B tcp_ops "glob demo_world"] by (simp add: startTCP_def)
  from server_step.on_session [of 0 "demo_world\<lparr>sessions := [(TCP, ?s)]\<rparr>" TCP ?s, simplified, OF this [simplified]]
  show ?thesis by (simp add: demo_reading_def demo_world_def)
qed

lemma demo_server_run: "server_run B demo_world [AcceptHTTP False, OnSession 0 Dispatched] demo_reading"
  using server_run.run_step [OF server_run.run_step [OF server_run.run_nil demo_accept] demo_dispatch]
  by simp

lemma demo_session:
  "pending (snd (hd (sessions demo_reading))) = PendingRead"
  "urlToHandler (snd (hd (sessions demo_reading))) = [(''/static'', File demo_file_handler)]"
  by (simp_all add: demo_reading_def do_read_def tcp_ops_def startTCP_def sessionTCP_def new_session_def
      demo_world_def)

lemma demo_routed:
  "find_handler (\<lambda>i. ch_slash) [(''/static'', File demo_file_handler)] ''/static/a.html'' =
     Inr (''/static'', Some (File demo_file_handler))"
  by code_simp

text \<open>A request for the one file, with and without a file system that lets it be read.\<close>

definition demo_request :: http_request where
  "demo_request = empty_request\<lparr>req_target := ''/static/a.html''\<rparr>"

lemma demo_request_target [simp]: "req_target demo_request = ''/static/a.html''"
  by (simp add: demo_request_def)

definition unreadable_env :: env where
  "unreadable_env = demo_env\<lparr>env_fs := demo_fs\<lparr>fs_read := (\<lambda>p. None)\<rparr>\<rparr>"

lemma demo_file:
  "File_handle_request B demo_fs demo_file_handler demo_request = Inr (ok_response B (get_mime ''/srv/a.html'') ''hi'')"
  "File_handle_request B (demo_fs\<lparr>fs_read := (\<lambda>p. None)\<rparr>) demo_file_handler demo_request = Inl LengthError"
  by (simp_all add: demo_fs_def demo_file_handler_def File_handle_request_def
      drop_trailing_slash_def str_substr_def send_file_def Let_def)

lemma demo_on_read:
  "\<exists>x. on_read B demo_env ops None (snd (hd (sessions demo_reading))\<lparr>pending := Idle, sess_req := demo_request\<rparr>) g = Inr x"
  "on_read B unreadable_env ops None (snd (hd (sessions demo_reading))\<lparr>pending := Idle, sess_req := demo_request\<rparr>) g =
     Inl LengthError"
  by (simp_all add: on_read_def construct_response_eq response_for_def get_response_def demo_session demo_routed
      demo_env_def unreadable_env_def demo_file Let_def)

lemma demo_envs [simp]: "log_copy demo_env = None" "log_copy unreadable_env = None"
  by (simp_all add: demo_env_def unreadable_env_def)

lemma demo_read_step:
  assumes "log_copy E = None" and "on_read B E (ops_of TCP) None
    (snd (hd (sessions demo_reading))\<lparr>pending := Idle, sess_req := demo_request\<rparr>) (glob demo_reading) = r"
  shows "server_step B demo_reading (OnSession 0 (ReadDone None demo_request E))
    (rbind r (\<lambda>(s', g'). Inr (demo_reading\<lparr>sessions := (sessions demo_reading)[0 := (TCP, s')], glob := g'\<rparr>)))"
proof (rule server_step.on_session)
  show "0 < length (sessions demo_reading)" by (simp add: demo_reading_def)
  show "sessions demo_reading ! 0 = (TCP, snd (hd (sessions demo_reading)))" by (simp add: demo_reading_def)
  show "session_step B (ops_of TCP) (snd (hd (sessions demo_reading))) (glob demo_reading)
      (ReadDone None demo_request E) r"
    unfolding assms(2) [symmetric] by (rule session_step.read_done) (rule demo_session)
  show "fresh (ReadDone None demo_request E)" using assms(1) by simp
qed

lemma demo_crash: "server_step B demo_reading (OnSession 0 (ReadDone None demo_request unreadable_env)) (Inl LengthError)"
  using demo_read_step [OF _ demo_on_read(2)] by simp

lemma demo_answer:
  "\<exists>w. server_run B demo_world
     [AcceptHTTP False, OnSession 0 Dispatched, OnSession 0 (ReadDone None demo_request demo_env)] w"
proof -
  obtain s g where "on_read B demo_env (ops_of TCP) None
      (snd (hd (sessions demo_reading))\<lparr>pending := Idle, sess_req := demo_request\<rparr>) (glob demo_reading) = Inr (s, g)"
    using demo_on_read(1) by fastforce
  from server_run.run_step [OF demo_server_run demo_read_step [OF _ this, simplified]] show ?thesis by auto
qed

text \<open>A second server, with the status page and a proxy.\<close>

definition side_config :: nginx_config where
  "side_config = NginxConfig
     [NginxConfigStatement [''location'', ''/status'', ''StatusHandler''] (Some (NginxConfig [])),
      NginxConfigStatement [''location'', ''/uw'', ''ProxyRequestHandler'']
        (Some (NginxConfig [NginxConfigStatement [''dest'', ''washington.edu''] None,
           NginxConfigStatement [''port'', ''80''] None]))]"

definition side_table :: "(string \<times> handler) list" where
  "side_table = [(''/status'', Status \<lparr>handler_name = ''Status'', keep_alive = False\<rparr>), (''/uw'', Proxy demo_proxy)]"

definition side_world :: world where
  "side_world = \<lparr>srv = (srv demo_world)\<lparr>server_config := side_config, server_table := side_table\<rparr>, sessions = [],
     glob = (glob demo_world)\<lparr>urlToHandlerName := [(''/status'', ''StatusHandler''), (''/uw'', ''ProxyRequestHandler'')]\<rparr>\<rparr>"

lemma side_handlers:
  "create_all_handlers f side_config (register_server_sigint demo_globals) = Inr (side_table, glob side_world)"
proof -
  have "normalize_url f ''/status'' = ''/status''" "normalize_url f ''/uw'' = ''/uw''"
    by (simp_all add: normalize_url_eq) code_simp+
  moreover have "create_handler ''/status'' ''StatusHandler'' (NginxConfig []) = Inr (Some (snd (side_table ! 0)))"
    "create_handler ''/uw'' ''ProxyRequestHandler'' (NginxConfig [NginxConfigStatement [''dest'', ''washington.edu''] None,
       NginxConfigStatement [''port'', ''80''] None]) = Inr (Some (snd (side_table ! 1)))"
    by code_simp+
  ultimately show ?thesis
    by (simp add: create_all_handlers_def side_config_def demo_globals_def new_globals_def side_world_def demo_world_def
        side_table_def register_server_sigint_def Let_def)
qed

lemma side_serves:
  "serve_forever f demo_certs demo_api demo_api side_config demo_globals = Inr (Running side_world)"
proof -
  have "get_num side_config ''port'' = Inr 80" "get_num side_config ''httpsPort'' = Inr 443"
    "load_server_certificate demo_certs side_config = Inr False" by code_simp+
  moreover from this have
    "start_server f demo_api demo_api side_config (register_server_sigint demo_globals) False = Inr side_world"
    by (simp add: start_server_def server_init_def side_handlers bind_acceptor_def demo_api_def
        new_acceptor_def start_accepting_def start_accepting_https_def local_port_def Let_def)
      (simp add: side_world_def demo_world_def)
  ultimately show ?thesis by (simp add: serve_forever_def)
qed

lemma side_routed:
  "find_handler (\<lambda>i. ch_slash) side_table ''/status'' = Inr (''/status'', Some (snd (side_table ! 0)))"
  "find_handler (\<lambda>i. ch_slash) side_table ''/uw/a'' = Inr (''/uw'', Some (Proxy demo_proxy))"
  by code_simp+

lemma side_accepts:
  "accepting (http_acceptor (srv side_world))" "listening (http_acceptor (srv side_world))" "sessions side_world = []"
  "server_table (srv side_world) = side_table"
  by (simp_all add: side_world_def demo_world_def)

text \<open>The network of a server that is connected to and never answers.\<close>

definition silent_env :: env where
  "silent_env = demo_env\<lparr>env_net := demo_network\<lparr>net_connect := (\<lambda>d p. Returns), net_read := (\<lambda>r. None)\<rparr>\<rparr>"

section \<open>Callbacks as single steps\<close>

text \<open>
  In every state of the running server, after any interleaving of accepts and of the callbacks
  of its sessions: the handlers of its table cut off the URL prefix they are registered under,
  accepts are under way only on a port that is served, and every session routes with the server's
  table and keeps the rules of a session's life.
\<close>

lemma server_invariant:
  assumes "serve_forever f cs api https_api c g = Inr (Running w)" and "server_run B w ls w'"
  shows "world_ok w'"
  using world_ok_run [OF assms(2) serve_forever_ok [OF assms(1)]] by blast

lemma server_invariant_witness:
  "server_run ref_beast demo_world [AcceptHTTP False, OnSession 0 Dispatched] demo_reading \<and> world_ok demo_reading"
  using server_invariant [OF demo_serves demo_server_run [of ref_beast]] demo_server_run by blast

text \<open>
  An exception leaves the event loop, and ends the program, only through a request for which a
  handler was called, and, with a file system whose status queries answer, only as the
  \<open>length_error\<close> of a file that exists and cannot be read: no request target, no header and no
  accept can make the running server fail otherwise.
\<close>

lemma server_crash:
  assumes "serve_forever f cs api https_api c g = Inr (Running w)" and "server_run B w ls w'"
    and "server_step B w' l (Inl e)" and "e \<noteq> NoReturn"
  shows "\<exists>i request E. l = OnSession i (ReadDone None request E) \<and>
    (fs_answers (env_fs E) \<longrightarrow> e = LengthError \<and> \<not> fs_readable (env_fs E))"
proof -
  have "world_ok w'" using world_ok_run [OF assms(2) serve_forever_ok [OF assms(1)]] by blast
  from server_step_Inl [OF assms(3) this assms(4)] show ?thesis by blast
qed

lemma server_crash_witness: "\<not> fs_readable (env_fs unreadable_env)"
proof -
  have "fs_answers (env_fs unreadable_env)"
    by (simp add: unreadable_env_def demo_env_def demo_fs_def fs_answers_def)
  with server_crash [OF demo_serves demo_server_run demo_crash] show ?thesis by auto
qed

text \<open>
  The server goes on accepting HTTP connections, with an accept under way after every step,
  until an accept fails; after one failure it never accepts again.
\<close>

lemma accept_loop:
  assumes "serve_forever f cs api https_api c g = Inr (Running w)" and "server_run B w ls w'"
    and "accepting (http_acceptor (srv w))"
  shows "accepting (http_acceptor (srv w')) \<longleftrightarrow> AcceptHTTP True \<notin> set ls"
  using accepting_run [OF assms(2) serve_forever_ok [OF assms(1)]] assms(3) by blast

lemma accept_loop_witness:
  "accepting (http_acceptor (srv demo_reading)) \<longleftrightarrow> AcceptHTTP True \<notin> set [AcceptHTTP False, OnSession 0 Dispatched]"
  by (rule accept_loop [OF demo_serves demo_server_run [of ref_beast]]) (simp add: demo_world_def)

text \<open>
  The log behind the status page holds, in the order in which the requests were answered, the
  target of every request a handler was found for and of no other, over all sessions; the table of
  handler names stays as it was at the start.
\<close>

lemma server_log:
  assumes "serve_forever f cs api https_api c g = Inr (Running w)" and "server_run B w ls w'"
  shows "map url (url_infos (glob w')) =
      map url (url_infos (glob w)) @ concat (map (routed_label (server_table (srv w))) ls) \<and>
    urlToHandlerName (glob w') = urlToHandlerName (glob w)"
  using server_run_log [OF assms(2) serve_forever_ok [OF assms(1)]] by (simp add: log_grows_def)

lemma server_log_witness:
  "\<exists>w. server_run ref_beast demo_world
       [AcceptHTTP False, OnSession 0 Dispatched, OnSession 0 (ReadDone None demo_request demo_env)] w \<and>
     map url (url_infos (glob w)) = [''/static/a.html'']"
proof -
  obtain w where run: "server_run ref_beast demo_world
      [AcceptHTTP False, OnSession 0 Dispatched, OnSession 0 (ReadDone None demo_request demo_env)] w"
    using demo_answer by blast
  from server_log [OF demo_serves run] have "map url (url_infos (glob w)) = [''/static/a.html'']"
    by (simp add: demo_world_def demo_env_def demo_routed)
  with run show ?thesis by (intro exI [of _ w] conjI)
qed

section \<open>The server in the pool\<close>

lemma demo_in_pool:
  assumes "server_run B demo_world ls w"
  shows "\<exists>as. defined_run B (start_pool demo_world) as (start_pool w) \<and> done_labels as = ls"
proof -
  have "no_status (server_table (srv demo_world))" by (simp add: no_status_def demo_world_def)
  then show ?thesis
    using run_in_pool [OF assms serve_forever_ok [OF demo_serves]] no_status_plain by blast
qed

lemma demo_defined: "\<exists>as. defined_run B (start_pool demo_world) as (start_pool demo_reading) \<and>
    done_labels as = [AcceptHTTP False, OnSession 0 Dispatched]"
  by (rule demo_in_pool [OF demo_server_run])

lemma demo_pool: "\<exists>as. pool_run B (start_pool demo_world) as (start_pool demo_reading) \<and>
    done_labels as = [AcceptHTTP False, OnSession 0 Dispatched]"
  using demo_defined defined_pool_run by blast

lemma demo_pool_answer: "\<exists>as w. defined_run B (start_pool demo_world) as (start_pool w) \<and>
    done_labels as = [AcceptHTTP False, OnSession 0 Dispatched, OnSession 0 (ReadDone None demo_request demo_env)]"
  using demo_answer demo_in_pool by blast


lemma demo_first: "sessions demo_reading ! 0 = (TCP, snd (hd (sessions demo_reading)))" "sessions demo_reading \<noteq> []"
  by (simp_all add: demo_reading_def)

lemma demo_waiting:
  "0 < length (sessions (shared (start_pool demo_reading)))"
  "sessions (shared (start_pool demo_reading)) ! 0 = (TCP, snd (hd (sessions demo_reading)))"
  "written (snd (hd (sessions demo_reading))) = []"
  by (simp_all add: demo_first) (simp add: demo_reading_def do_read_def tcp_ops_def startTCP_def sessionTCP_def new_session_def)



section \<open>Properties\<close>

text \<open>
  C5: In every state of the running server, whatever its threads do in whatever order: the handlers
  of its table cut off the URL prefix they are registered under, accepts are under way only on a
  port that is served, every session routes with the server's table and keeps the rules of a
  session's life, and no two threads run callbacks of the same session or of the same acceptor.
\<close>

theorem pool_invariant:
  assumes "serve_forever f cs api https_api c g = Inr (Running w)" and "pool_run B (start_pool w) as p"
  shows "world_ok (shared p) \<and> exclusive (jobs p)"
  using pool_ok_world [OF served_pool_ok(1,2) [OF assms]] served_pool_ok(1) [OF assms] by (simp add: pool_ok_def)

theorem pool_invariant_witness: "world_ok demo_reading"
proof -
  obtain as where "pool_run ref_beast (start_pool demo_world) as (start_pool demo_reading)" using demo_pool by blast
  from pool_invariant [OF demo_serves this] show ?thesis by simp
qed



text \<open>
  C12: The threads do not mix sessions up, as long as no two of them were at the log at once: every
  session of the running server is in the state, up to the operation a thread has just taken from it,
  in which a session that runs alone is after the callbacks that were ended for it, in their order;
  so the responses it sent are one for each request it read, each determined by the server's table,
  the request, the surroundings and the log as it was at some earlier time, a prefix of the present
  one. The status handler reads the log twice: what it copied, which is then part of the surroundings
  of its request, is a prefix of the log it counted.
\<close>

theorem pool_sessions:
  assumes "serve_forever f cs api https_api c g = Inr (Running w)" and "defined_run B (start_pool w) as p"
    and "i < length (sessions (shared p))" and "sessions (shared p) ! i = (t, s)"
  shows "\<exists>tr s0. session_run B (ops_of t) (started t (server_config (srv w)) (server_table (srv w))) tr s0 \<and>
    map snd tr = done_events i as \<and> (\<forall>(g, ev) \<in> set tr. earlier g (glob (shared p)) \<and> copied_ok g ev) \<and>
    session_view (jobs p) i s s0 \<and> map fst (written s) = transcript B (server_table (srv w)) tr"
proof -
  obtain tr s0 where run: "session_run B (ops_of t) (started t (server_config (srv w)) (server_table (srv w))) tr s0"
    and "map snd tr = done_events i as" "\<forall>(g, ev) \<in> set tr. earlier g (glob (shared p)) \<and> copied_ok g ev"
    and view: "session_view (jobs p) i s s0"
    using pool_ok_session(1) [OF served_pool_ok(1) [OF assms(1) defined_pool_run [OF assms(2)]] assms(3,4)]
    by (auto simp: session_ok_def)
  moreover have "written s = written s0" using view by (auto simp: session_view_def split: if_splits)
  ultimately show ?thesis using session_stream.run_written [OF stream_of run] by auto
qed

theorem pool_sessions_witness:
  "\<exists>tr s0. session_run ref_beast (ops_of TCP) (started TCP demo_config (server_table (srv demo_world))) tr s0 \<and>
     map fst (written (snd (hd (sessions demo_reading)))) = transcript ref_beast (server_table (srv demo_world)) tr"
proof -
  obtain as where "defined_run ref_beast (start_pool demo_world) as (start_pool demo_reading)" using demo_defined by blast
  from pool_sessions [OF demo_serves this, of 0 TCP "snd (hd (sessions demo_reading))"] show ?thesis
    using demo_first by (auto simp: demo_world_def)
qed

text \<open>
  C16: As long as no location has a status handler and no two threads are at the log at once, running
  callbacks on four threads is equivalent to running them one at a time: the idle pool can be reached
  by ending callbacks in some order exactly if the loop that runs every callback as a single step
  reaches the same server, sessions and log in that order.
\<close>

theorem pool_linearizable:
  assumes "serve_forever f cs api https_api c g = Inr (Running w)" and "no_status (server_table (srv w))"
  shows "(\<exists>as. defined_run B (start_pool w) as (start_pool w') \<and> done_labels as = ls) \<longleftrightarrow> server_run B w ls w'"
proof
  assume "\<exists>as. defined_run B (start_pool w) as (start_pool w') \<and> done_labels as = ls"
  then obtain as where run: "pool_run B (start_pool w) as (start_pool w')" and ls: "done_labels as = ls"
    using defined_pool_run by blast
  obtain w1 where w1: "server_run B w (done_labels as) w1" and behind: "behind w1 (start_pool w')"
    using behind_run [OF run served_pool_ok(1) [OF assms(1) pool_run.pool_nil] assms(2) behind_start] by blast
  have "w1 = w'" using behind_idle [OF behind runs_start] by simp
  with w1 ls show "server_run B w ls w'" by simp
next
  assume "server_run B w ls w'"
  then show "\<exists>as. defined_run B (start_pool w) as (start_pool w') \<and> done_labels as = ls"
    using run_in_pool [OF _ serve_forever_ok [OF assms(1)]] no_status_plain [OF assms(2)] by blast
qed

theorem pool_linearizable_witness:
  "\<exists>as. defined_run ref_beast (start_pool demo_world) as (start_pool demo_reading) \<and>
     done_labels as = [AcceptHTTP False, OnSession 0 Dispatched]"
proof -
  have "no_status (server_table (srv demo_world))" by (simp add: no_status_def demo_world_def)
  from pool_linearizable [OF demo_serves this] demo_server_run show ?thesis by blast
qed

text \<open>
  C10: As long as no two threads were at the log at once, the log behind the status page holds, in the
  order in which their callbacks ended, the target of every request a handler was found for and of no
  other, over all sessions and threads; the table of handler names stays as it was at the start.
\<close>

theorem pool_log:
  assumes "serve_forever f cs api https_api c g = Inr (Running w)" and "defined_run B (start_pool w) as p"
  shows "map url (url_infos (glob (shared p))) =
      map url (url_infos (glob w)) @ concat (map (routed_label (server_table (srv w))) (done_labels as)) \<and>
    urlToHandlerName (glob (shared p)) = urlToHandlerName (glob w)"
  using served_log [OF assms(1) defined_pool_run [OF assms(2)]] by (simp add: log_grows_def)

theorem pool_log_witness:
  "\<exists>as w. defined_run ref_beast (start_pool demo_world) as (start_pool w) \<and>
     map url (url_infos (glob w)) = [''/static/a.html'']"
proof -
  obtain as w where run: "defined_run ref_beast (start_pool demo_world) as (start_pool w)"
    and ls: "done_labels as = [AcceptHTTP False, OnSession 0 Dispatched, OnSession 0 (ReadDone None demo_request demo_env)]"
    using demo_pool_answer by blast
  from pool_log [OF demo_serves run] have "map url (url_infos (glob w)) = [''/static/a.html'']"
    by (simp add: ls demo_world_def demo_env_def demo_routed)
  with run show ?thesis by (intro exI conjI)
qed

text \<open>
  C17: The append to the log is not ordered against the other threads: as soon as the server serves
  HTTP and some request is answered by a handler, it can come, by a run whose behaviour is defined, into
  a state in which two threads are at the log at once, one of them about to append to it.
\<close>

theorem log_race:
  assumes "serve_forever f cs api https_api c g = Inr (Running w)" and "accepting (http_acceptor (srv w))"
    and "find_handler (oob E) (server_table (srv w)) (req_target request) = Inr (u, Some h)"
    and "handle_request B E (glob w) h request = Inr r"
  shows "\<exists>as p. defined_run B (start_pool w) as p \<and> race p"
proof -
  obtain r' where "handle_request B (E\<lparr>log_copy := None\<rparr>) (glob w) h request = Inr r'"
    using handle_request_uncopied [OF assms(4)] by blast
  with serve_forever_Running [OF assms(1)] serve_forever_ok [OF assms(1)] assms(2,3) show ?thesis
    by (intro race_reachable [where E = "E\<lparr>log_copy := None\<rparr>"]) auto
qed

theorem log_race_witness: "\<exists>as p. defined_run ref_beast (start_pool demo_world) as p \<and> race p"
  by (rule log_race [OF demo_serves, where E = demo_env and request = demo_request and u = "''/static''"
        and h = "File demo_file_handler"])
    (simp_all add: demo_world_def demo_env_def demo_routed demo_file)



text \<open>
  C19: The proxy can bring the whole server to a halt. If the server serves HTTP and a location is
  proxied to a server that lets the proxy wait for ever, as it may, because the calls on that
  connection block and have no timeout, then as many clients as there are threads can bring the
  server, by a run whose behaviour is defined, into a state in which every thread waits and no action
  of the pool is possible any more, although the port is still accepting.
\<close>

theorem proxy_starves:
  fixes E :: env
  assumes "serve_forever f cs api https_api c g = Inr (Running w)" and "accepting (http_acceptor (srv w))"
    and "find_handler (oob E) (server_table (srv w)) (req_target request) = Inr (u, Some (Proxy h))"
    and "\<not> proxy_invalid h" and "proxy_request B h request = Inr q" and "hangs (env_net E) h q"
    and "log_copy E = None"
  shows "\<exists>as p. defined_run B (start_pool w) as p \<and> accepting (http_acceptor (srv (shared p))) \<and>
    (\<forall>th < length (jobs p). thread_waits B p th) \<and> (\<forall>a p'. \<not> pool_step B p a p')"
proof -
  have "Proxy_handle_request B (env_replace E) (env_net E) h request = Inl NoReturn"
    using req_synchronous_fails [OF hangs_not_answers [OF assms(6)], of B] assms(4-6)
    by (auto simp: Proxy_handle_request_def)
  with serve_forever_Running [OF assms(1)] serve_forever_ok [OF assms(1)] assms(2,3,7) show ?thesis
    by (intro starved [where E = E]) auto
qed

theorem proxy_starves_witness:
  "\<exists>as p. defined_run ref_beast (start_pool side_world) as p \<and> (\<forall>a p'. \<not> pool_step ref_beast p a p')"
proof -
  let ?q = "empty_request\<lparr>req_method := ''GET'', req_target := ''/uw/a''\<rparr>"
  have "find_handler (oob silent_env) (server_table (srv side_world)) (req_target ?q) = Inr (''/uw'', Some (Proxy demo_proxy))"
    using side_routed(2) by (simp add: side_accepts silent_env_def demo_env_def)
  moreover obtain q where "proxy_request ref_beast demo_proxy ?q = Inr q"
    using proxy_request_spec [OF ref_beast_laws ref_beast_trace_laws, of demo_proxy ?q] by (auto simp: demo_proxy_def)
  moreover have "hangs (env_net silent_env) demo_proxy q" "log_copy silent_env = None" "\<not> proxy_invalid demo_proxy"
    by (simp_all add: hangs_def silent_env_def demo_network_def demo_env_def demo_proxy_def)
  ultimately show ?thesis using proxy_starves [OF side_serves side_accepts(1)] by blast
qed

text \<open>
  C23: On each of its two ports the server goes on accepting if it accepted at the start, with an
  accept under way or its callback run by a thread at any time, until an accept on that port
  fails; after one failure it never accepts there again.
\<close>

theorem pool_accepts:
  assumes "serve_forever f cs api https_api c g = Inr (Running w)" and "pool_run B (start_pool w) as p"
  shows "(accepting (http_acceptor (srv (shared p))) \<or> (\<exists>th. runs (jobs p) th HttpAcceptor) \<longleftrightarrow>
      accepting (http_acceptor (srv w)) \<and> AcceptHTTP True \<notin> set (done_labels as)) \<and>
    (accepting (https_acceptor (srv (shared p))) \<or> (\<exists>th. runs (jobs p) th HttpsAcceptor) \<longleftrightarrow>
      accepting (https_acceptor (srv w)) \<and> AcceptHTTPS True \<notin> set (done_labels as))"
  using served_alive [OF assms] by (simp add: accept_alive_def)

theorem pool_accepts_witness: "accepting (http_acceptor (srv demo_reading))"
proof -
  obtain as where run: "pool_run ref_beast (start_pool demo_world) as (start_pool demo_reading)"
    and ls: "done_labels as = [AcceptHTTP False, OnSession 0 Dispatched]" using demo_pool by blast
  have "accepting (http_acceptor (srv demo_world))" by (simp add: demo_world_def)
  with pool_accepts [OF demo_serves run] show ?thesis using runs_start [of demo_reading] by (simp add: ls)
qed

text \<open>
  C22: Once the stream of a session is shut down the session is over: no operation of it is under way
  and no thread works for it, and whatever the threads do afterwards no callback of it runs again
  and nothing of it changes, so that nothing more is sent on the connection.
\<close>

theorem session_released:
  assumes "serve_forever f cs api https_api c g = Inr (Running w)" and "pool_run B (start_pool w) as p"
    and "i < length (sessions (shared p))" and "sessions (shared p) ! i = (t, s)" and "shut s \<noteq> None"
    and "pool_run B p bs p'"
  shows "sessions (shared p') ! i = (t, s) \<and> done_events i bs = [] \<and> released p' i"
  using released_run [OF assms(6) shut_released [OF served_pool_ok(1) [OF assms(1,2)] assms(3-5)]] assms(4) by simp

lemma demo_closes:
  "\<exists>as p. pool_run B (start_pool demo_world) as (start_pool p) \<and>
     sessions p = [(TCP, snd (hd (sessions demo_reading))\<lparr>pending := Idle, sess_req := demo_request, shut := Some ShutdownBoth\<rparr>)]"
proof -
  let ?s = "snd (hd (sessions demo_reading))"
  let ?w = "demo_reading\<lparr>sessions :=
    [(TCP, ?s\<lparr>pending := Idle, sess_req := demo_request, shut := Some ShutdownBoth\<rparr>)]\<rparr>"
  have "on_read B demo_env (ops_of TCP) (Some EndOfStream) (?s\<lparr>pending := Idle, sess_req := demo_request\<rparr>) (glob demo_reading) =
      Inr (?s\<lparr>pending := Idle, sess_req := demo_request, shut := Some ShutdownBoth\<rparr>, glob demo_reading)"
    by (simp add: on_read_def tcp_ops_def)
  with session_step.read_done [OF demo_session(1), of B "ops_of TCP" "glob demo_reading" "Some EndOfStream" demo_request demo_env]
  have "session_step B (ops_of TCP) ?s (glob demo_reading) (ReadDone (Some EndOfStream) demo_request demo_env)
      (Inr (?s\<lparr>pending := Idle, sess_req := demo_request, shut := Some ShutdownBoth\<rparr>, glob demo_reading))" by simp
  from server_step.on_session [OF _ demo_first(1) this] demo_first(2)
  have "server_step B demo_reading (OnSession 0 (ReadDone (Some EndOfStream) demo_request demo_env)) (Inr ?w)"
    by (simp add: demo_reading_def)
  from demo_in_pool [OF server_run.run_step [OF demo_server_run this]] show ?thesis
    by (metis (no_types, lifting) defined_pool_run world.select_convs(2) world.surjective world.update_convs(2))
qed

theorem session_released_witness:
  "\<exists>as w. pool_run ref_beast (start_pool demo_world) as (start_pool w) \<and> released (start_pool w) 0"
proof -
  obtain as w where run: "pool_run ref_beast (start_pool demo_world) as (start_pool w)"
    and "sessions w = [(TCP, snd (hd (sessions demo_reading))\<lparr>pending := Idle, sess_req := demo_request, shut := Some ShutdownBoth\<rparr>)]"
    using demo_closes by blast
  then have "released (start_pool w) 0"
    using session_released [OF demo_serves run _ _ _ pool_run.pool_nil, of 0 TCP
        "snd (hd (sessions demo_reading))\<lparr>pending := Idle, sess_req := demo_request, shut := Some ShutdownBoth\<rparr>"] by simp
  with run show ?thesis by blast
qed

text \<open>
  C25: A handler is made for exactly eight names; the object made is of the class the name stands
  for, remembers the URL prefix it is registered under if its class keeps one, without the slash at
  its end if the class cuts it off targets, and keeps connections alive exactly if its class reads the setting and the setting is a number other than 0.
\<close>

theorem handler_created:
  "(create_handler u n c = Inr None \<longleftrightarrow> n \<notin> handler_names) \<and>
   (\<forall>h. create_handler u n c = Inr (Some h) \<longrightarrow> class_name h = n \<and> prefix_agrees u h \<and>
     (keep_alive (base_of h) \<longleftrightarrow> reads_keep_alive h \<and> (\<exists>k. get_num c ''keep-alive'' = Inr k \<and> k \<noteq> 0)))"
proof -
  have "create_handler u n c = Inr None \<longleftrightarrow> n \<notin> handler_names"
    by (auto simp: create_handler_def handler_names_def rbind_eq_Inr_iff)
  then show ?thesis using created_handler by blast
qed

theorem handler_created_witness:
  "create_handler ''/e'' ''EchoHandler'' (NginxConfig [NginxConfigStatement [''keep-alive'', ''1''] None]) =
     Inr (Some (Echo \<lparr>handler_name = ''Echo'', keep_alive = True, echo_prefix = ''/e''\<rparr>)) \<and>
   class_name (Echo \<lparr>handler_name = ''Echo'', keep_alive = True, echo_prefix = ''/e''\<rparr>) = ''EchoHandler''"
proof -
  have "create_handler ''/e'' ''EchoHandler'' (NginxConfig [NginxConfigStatement [''keep-alive'', ''1''] None]) =
     Inr (Some (Echo \<lparr>handler_name = ''Echo'', keep_alive = True, echo_prefix = ''/e''\<rparr>))" by code_simp
  with handler_created show ?thesis by blast
qed

text \<open>
  With a file system whose status queries answer, the certificates are loaded exactly if both
  paths are configured, both name regular files, and OpenSSL accepts the contents of the two.
\<close>

lemma certificates_loaded:
  assumes "cs_answers cs" and "get_str c ''certificate'' = Inr cert" and "get_str c ''privateKey'' = Inr key"
  shows "load_server_certificate cs c =
    Inr (cert \<noteq> [] \<and> key \<noteq> [] \<and> cs_exists cs cert = Inr True \<and> cs_regular cs cert = Inr True \<and>
      cs_exists cs key = Inr True \<and> cs_regular cs key = Inr True \<and> cs_use cs (cs_read cs cert) (cs_read cs key))"
  using assms(2,3) by (auto simp: load_server_certificate_def regular_file_eq [OF assms(1)] Let_def)

lemma certificates_loaded_example:
  "load_server_certificate
     \<lparr>cs_exists = (\<lambda>p. Inr True), cs_regular = (\<lambda>p. Inr True), cs_read = (\<lambda>p. p), cs_use = (\<lambda>c k. k = ''key'')\<rparr>
     (NginxConfig [NginxConfigStatement [''certificate'', ''crt''] None, NginxConfigStatement [''privateKey'', ''key''] None]) =
     Inr True"
proof -
  let ?c = "NginxConfig [NginxConfigStatement [''certificate'', ''crt''] None, NginxConfigStatement [''privateKey'', ''key''] None]"
  have "get_str ?c ''certificate'' = Inr ''crt''" "get_str ?c ''privateKey'' = Inr ''key''" by code_simp+
  from certificates_loaded [OF _ this] show ?thesis by (simp add: cs_answers_def)
qed

text \<open>
  C11: The table of handlers is made of the locations of the configuration in their order: one entry
  for each \<open>location\<close> statement of three words with a known handler name, under its URL with the
  slashes put right, the same URLs with the handler names going to the table of the status page;
  the first location without a block, or whose handler cannot be made, ends it with that failure.
\<close>

theorem handlers_from_config:
  "create_all_handlers f config g =
     rbind (collect (location_entry f) (locations config)) (\<lambda>es.
       Inr (map (\<lambda>(u, n, h). (u, h)) es,
            g\<lparr>urlToHandlerName := urlToHandlerName g @ map (\<lambda>(u, n, h). (u, n)) es\<rparr>))"
  by (simp add: create_all_handlers_def create_all_loop_eq locations_def add_entries_def)

text \<open>
  C33: A \<open>location\<close> statement of three words that ends in a semicolon instead of a block, which the
  parser accepts, makes the server dereference a null pointer while it creates its handlers.
\<close>

theorem location_without_block:
  assumes "(p, n, None) \<in> set (locations config)"
  shows "create_all_handlers f config g = Inl NullDeref"
  using collect_Inl [OF assms, of "location_entry f" NullDeref] location_entry_Inl
  by (auto simp: create_all_handlers_def create_all_loop_eq locations_def)

theorem location_without_block_witness:
  "create_all_handlers (\<lambda>i. ch_slash)
     (NginxConfig [NginxConfigStatement [''location'', ''/x'', ''EchoHandler''] None]) demo_globals = Inl NullDeref"
  using location_without_block [of "''/x''" "''EchoHandler''"
      "NginxConfig [NginxConfigStatement [''location'', ''/x'', ''EchoHandler''] None]"]
  by (simp add: locations_def)

text \<open>
  C24: What \<open>serve_forever\<close> hands to the event loop: the ports are the configured numbers modulo
  \<open>2 ^ 16\<close>; HTTP is accepted exactly if its port could be bound; HTTPS is accepted exactly if the
  certificates were loaded, whether or not the HTTPS port could be bound; the table is the one
  made from the configuration.
\<close>

theorem startup:
  assumes "serve_forever f cs api https_api c g = Inr (Running w)"
  shows "\<exists>loaded p hp. load_server_certificate cs c = Inr loaded \<and>
    get_num c ''port'' = Inr p \<and> get_num c ''httpsPort'' = Inr hp \<and>
    uint (port (srv w)) = p mod 2 ^ 16 \<and>
    accepting (http_acceptor (srv w)) = fst (bind_acceptor api new_acceptor (word_of_int p)) \<and>
    listening (http_acceptor (srv w)) = fst (bind_acceptor api new_acceptor (word_of_int p)) \<and>
    accepting (https_acceptor (srv w)) = loaded \<and>
    listening (https_acceptor (srv w)) = fst (bind_acceptor https_api new_acceptor (word_of_int hp)) \<and>
    create_all_handlers f c (register_server_sigint g) = Inr (server_table (srv w), glob w)"
proof -
  obtain loaded s g' where load: "load_server_certificate cs c = Inr loaded"
    and init: "server_init f api https_api c (register_server_sigint g) = Inr (s, g')"
    and w: "accepting (http_acceptor (srv w)) = serving s" "listening (http_acceptor (srv w)) = serving s"
      "accepting (https_acceptor (srv w)) = loaded" "listening (https_acceptor (srv w)) = serving_https s"
      "server_table (srv w) = server_table s" "port (srv w) = port s" "glob w = g'"
    using serve_forever_Running [OF assms] by blast
  from server_init_Inr [OF init] load w show ?thesis
    by (auto simp: uint_word_of_int)
qed

theorem startup_witness:
  "serve_forever (\<lambda>i. ch_slash) demo_certs demo_api demo_api demo_config demo_globals = Inr (Running demo_world) \<and>
     uint (port (srv demo_world)) = 80 mod 2 ^ 16 \<and>
     accepting (http_acceptor (srv demo_world)) = fst (bind_acceptor demo_api new_acceptor 80)"
  using startup [OF demo_serves [of "\<lambda>i. ch_slash"]] demo_serves demo_numbers by auto

text \<open>
  C9: From the file to the server: when the program is started with the name of a file that holds
  the text of a configuration, it serves exactly that configuration.
\<close>

theorem main_runs_config:
  assumes "open_file name = Some (write_config cfg)" and "printable_config cfg" and "statements cfg \<noteq> []"
  shows "main_program open_file f cs api https_api 2 [prog, name] =
    rbind (serve_forever f cs api https_api cfg main_globals) (\<lambda>r. Inr (Returned r))"
  using assms by (rule main_parsed)

theorem main_runs_config_witness:
  "main_program (\<lambda>n. Some (write_config demo_config)) (\<lambda>i. ch_slash) demo_certs demo_api demo_api 2 [''server'', ''conf''] =
     Inr (Returned (Running demo_world))"
proof -
  have "printable_config demo_config" "statements demo_config \<noteq> []"
    by (simp_all add: demo_config_def bare_def starts_token_def ends_token_def)
  from main_runs_config [OF _ this, of "\<lambda>n. Some (write_config demo_config)" "''conf''" "\<lambda>i. ch_slash"
      demo_certs demo_api demo_api "''server''"]
  show ?thesis using demo_serves by (simp add: demo_globals_def main_globals_def)
qed

text \<open>
  A request is given to the handler of its location: with the first location of the
  configuration among those with the longest URL that matches the path, slashes put right, the
  server made from the configuration has made the handler of that location and a session finds it.
\<close>

lemma location_routes:
  assumes "serve_forever f cs api https_api config g = Inr (Running w)" and "short_urls config"
    and "strip_query target = Inr path" and "location_for config path (p, n, c)"
  shows "\<exists>h block. c = Some block \<and> create_handler (clean_url p) n block = Inr (Some h) \<and> class_name h = n \<and>
    find_handler oob' (server_table (srv w)) target = Inr (clean_url p, Some h)"
  by (rule served_location [OF assms]) (use created_handler(1) in blast)

lemma demo_locations:
  "locations demo_config = [(''/static/'', ''StaticHandler'', Some (NginxConfig [NginxConfigStatement [''root'', ''/srv''] None]))]"
  "known_locations demo_config = locations demo_config" "clean_url ''/static/'' = ''/static''"
proof -
  show "locations demo_config = [(''/static/'', ''StaticHandler'', Some (NginxConfig [NginxConfigStatement [''root'', ''/srv''] None]))]"
    by (simp add: locations_def demo_config_def)
  then show "known_locations demo_config = locations demo_config"
    by (simp add: known_locations_def handler_names_def)
  show "clean_url ''/static/'' = ''/static''" by code_simp
qed

lemma demo_location:
  "short_urls demo_config" "printable_config demo_config" "statements demo_config \<noteq> []"
  "strip_query ''/static/a.html'' = Inr ''/static/a.html''"
  "location_for demo_config ''/static/a.html''
     (''/static/'', ''StaticHandler'', Some (NginxConfig [NginxConfigStatement [''root'', ''/srv''] None]))"
proof -
  have "url_matches (''/static/a.html'' @ [ch_slash]) ''/static''" by (simp add: url_matches_def)
  then show "short_urls demo_config"
    "location_for demo_config ''/static/a.html''
       (''/static/'', ''StaticHandler'', Some (NginxConfig [NginxConfigStatement [''root'', ''/srv''] None]))"
    by (simp_all add: short_urls_def location_for_def demo_locations)
  show "printable_config demo_config" "statements demo_config \<noteq> []"
    by (simp_all add: demo_config_def bare_def starts_token_def ends_token_def)
  show "strip_query ''/static/a.html'' = Inr ''/static/a.html''" by (rule strip_query_none) simp
qed

lemma location_routes_example:
  "\<exists>h. find_handler (\<lambda>i. ch_slash) (server_table (srv demo_world)) ''/static/a.html'' = Inr (''/static'', Some h) \<and>
     class_name h = ''StaticHandler''"
proof -
  have "clean_url ''/static/'' = ''/static''" by code_simp
  with location_routes [OF demo_serves demo_location(1,4,5)] show ?thesis by auto
qed

text \<open>
  C14: What becomes of a request, whatever it is. The program was started with a file that holds the
  text of a configuration, and its threads have done whatever they have done; a session waits for a
  request and a thread is idle. If the path of the request belongs to a location, the server has a
  handler made from it, and this handler decides: its response is sent, with the connection header
  of the handler, and the target goes to the log; or its exception leaves the thread; or the thread
  waits for ever in one of its calls. If it belongs to none, the fixed 404 response is sent and
  nothing is logged. What the thread does for it is defined as long as no other thread is at the log.
\<close>

theorem every_request:
  assumes "open_file name = Some (write_config config)" and "printable_config config"
    and "statements config \<noteq> []" and "short_urls config"
    and main: "main_program open_file f cs api https_api 2 [prog, name] = Inr (Returned (Running w))"
    and run: "pool_run B (start_pool w) as p" and th: "th < length (jobs p)" "jobs p ! th = None"
    and i: "i < length (sessions (shared p))" and s: "sessions (shared p) ! i = (t, s)" and read: "pending s = PendingRead"
    and E: "log_copy E = None"
  shows "\<exists>path. strip_query (req_target request) = Inr path \<and>
    (let l = OnSession i (ReadDone None request E) in
     (\<exists>u n block h. location_for config path (u, n, Some block) \<and>
        create_handler (clean_url u) n block = Inr (Some h) \<and>
        (case handle_request B E (glob (shared p)) h request of
           Inr r \<Rightarrow> \<exists>p' s'. thread_run B th p (answer_actions th i request E h (glob (shared p))) p' \<and>
             sessions (shared p') ! i = (t, s') \<and>
             written s' = written s @ [(sent B h r, closes B (sent B h r))] \<and>
             map url (url_infos (glob (shared p'))) = map url (url_infos (glob (shared p))) @ [req_target request]
         | Inl e \<Rightarrow> \<exists>p'. thread_run B th p [Take th l] p' \<and>
             (if e = NoReturn then thread_waits B p' th else thread_throws B p' th e))) \<or>
     (\<forall>x \<in> set (known_locations config). \<not> url_matches (path @ [ch_slash]) (clean_url (fst x))) \<and>
       (\<exists>p' s'. thread_run B th p [Take th l, Done th l] p' \<and> sessions (shared p') ! i = (t, s') \<and>
          written s' = written s @ [(not_found_error B, closes B (not_found_error B))] \<and>
          glob (shared p') = glob (shared p)))"
proof -
  obtain g where serve: "serve_forever f cs api https_api config g = Inr (Running w)"
    using main main_parsed [of open_file name, OF assms(1-3)] by (auto simp: rbind_eq_Inr_iff)
  have table: "urlToHandler s = server_table (srv w)" by (rule pool_ok_session [OF served_pool_ok(1) [OF serve run] i s])
  obtain path where path: "strip_query (req_target request) = Inr path"
    by (rule route.path)
  show ?thesis
  proof (cases "\<forall>x \<in> set (known_locations config). \<not> url_matches (path @ [ch_slash]) (clean_url (fst x))")
    case True
    obtain g1 g2 where "create_all_handlers f config g1 = Inr (server_table (srv w), g2)"
      using served_table [OF serve] by blast
    from unmatched_found [OF this assms(4) path True, of "oob E"] obtain u
      where "find_handler (oob E) (urlToHandler s) (req_target request) = Inr (u, None)" unfolding table by blast
    from unrouted_run [OF th i s read E this, of B] path True i show ?thesis by (fastforce simp: Let_def)
  next
    case False
    then obtain u n c where location: "location_for config path (u, n, c)" using location_exists by (metis prod_cases3)
    obtain h block where h: "c = Some block" "create_handler (clean_url u) n block = Inr (Some h)"
      and found: "find_handler (oob E) (urlToHandler s) (req_target request) = Inr (clean_url u, Some h)"
      unfolding table by (rule served_location [OF serve assms(4) path location])
    note outcome = answer_run [OF th i s read E found, of B] failing_run [OF th i s read E found, of B]
    show ?thesis
    proof (cases "handle_request B E (glob (shared p)) h request")
      case (Inl e)
      with outcome(2) location h path show ?thesis by (fastforce simp: Let_def)
    next
      case (Inr r)
      with outcome(1) location h path i show ?thesis by (fastforce simp: Let_def record_url_def)
    qed
  qed
qed

text \<open>
  C13: From the file to the response: a program started with the name of a file that holds the text
  of a configuration answers a request for a file below the root of a static location. Whatever its
  threads have done so far, an idle thread that takes the request of a waiting session brings it
  to the end, and the session then sends one more response: status 200, the content of the file,
  its MIME type and length; the request is in the log. What the thread does is defined as long as no
  other thread is at the log.
\<close>

theorem static_site:
  assumes "beast_laws B" and "open_file name = Some (write_config config)" and "printable_config config"
    and "statements config \<noteq> []" and "short_urls config"
    and main: "main_program open_file f cs api https_api 2 [prog, name] = Inr (Returned (Running w))"
    and run: "pool_run B (start_pool w) as p" and th: "th < length (jobs p)" "jobs p ! th = None"
    and i: "i < length (sessions (shared p))" and s: "sessions (shared p) ! i = (t, s)" and "pending s = PendingRead"
    and E: "log_copy E = None" and path: "strip_query (req_target request) = Inr path"
    and location: "location_for config path (l, ''StaticHandler'', Some block)" and root: "file_root block = Inr root"
    and target: "req_target request = drop_trailing_slash (clean_url l) @ tail" "tail \<noteq> []" "last tail \<noteq> ch_slash"
    and fs: "fs_exists (env_fs E) root = Inr True" "fs_is_directory (env_fs E) root = Inr True"
      "fs_exists (env_fs E) (fs_append (env_fs E) root tail) = Inr True"
      "fs_is_directory (env_fs E) (fs_append (env_fs E) root tail) = Inr False"
      "fs_read (env_fs E) (fs_append (env_fs E) root tail) = Some content"
  shows "\<exists>p' s' r. thread_run B th p [Take th (OnSession i (ReadDone None request E)), Handled th,
        Done th (OnSession i (ReadDone None request E))] p' \<and>
      sessions (shared p') ! i = (t, s') \<and> written s' = written s @ [(r, closes B r)] \<and>
      res_result r = 200 \<and> res_body r = content \<and> framed B r \<and>
      find_field B ''Content-Type'' (res_fields r) = Some (get_mime (fs_append (env_fs E) root tail)) \<and>
      map url (url_infos (glob (shared p'))) = map url (url_infos (glob (shared p))) @ [req_target request]"
proof -
  obtain g where serve: "serve_forever f cs api https_api config g = Inr (Running w)"
    using main main_parsed [of open_file name, OF assms(2-4)] by (auto simp: rbind_eq_Inr_iff)
  obtain h where h: "create_handler (clean_url l) ''StaticHandler'' block = Inr (Some h)"
    and found: "find_handler (oob E) (server_table (srv w)) (req_target request) = Inr (clean_url l, Some h)"
    by (rule served_location [OF serve assms(5) path location, where oob' = "oob E"]) simp
  obtain fh where fh: "h = File fh" "files_prefix fh = drop_trailing_slash (clean_url l)" "linux_dir fh = root"
    "\<not> invalid_config fh" using static_created [OF h root] .
  let ?r = "ok_response B (get_mime (fs_append (env_fs E) root tail)) content"
  have handle: "handle_request B E (glob (shared p)) h request = Inr ?r"
    using file_found [OF fh(4), of request tail "env_fs E" content B] target fs by (simp add: fh)
  have table: "urlToHandler s = server_table (srv w)" by (rule pool_ok_session [OF served_pool_ok(1) [OF serve run] i s])
  have "answer_actions th i request E h (glob (shared p)) = [Take th (OnSession i (ReadDone None request E)), Handled th,
      Done th (OnSession i (ReadDone None request E))]"
    by (simp add: answer_actions_def fh with_copy_other)
  then obtain s' where "thread_run B th p [Take th (OnSession i (ReadDone None request E)), Handled th,
      Done th (OnSession i (ReadDone None request E))]
      (p\<lparr>shared := (set_session i t s' (shared p))\<lparr>glob := record_url (record_time E) request ?r (glob (shared p))\<rparr>\<rparr>)"
    and "written s' = written s @ [(sent B h ?r, closes B (sent B h ?r))]"
    using answer_run [OF th i s assms(12) E found [folded table] handle] by auto
  then show ?thesis
    using i sent_sel [OF assms(1), of h ?r] ok_response_sel [OF assms(1)] by (fastforce simp: record_url_def)
qed

lemma demo_main:
  "main_program (\<lambda>n. Some (write_config demo_config)) (\<lambda>i. ch_slash) demo_certs demo_api demo_api 2 [''server'', ''conf''] =
     Inr (Returned (Running demo_world))"
  using main_parsed [OF _ demo_location(2,3)] demo_serves by (simp add: demo_globals_def main_globals_def)

theorem static_site_witness:
  "\<exists>p' s' r. thread_run ref_beast 3 (start_pool demo_reading)
      [Take 3 (OnSession 0 (ReadDone None demo_request demo_env)), Handled 3,
       Done 3 (OnSession 0 (ReadDone None demo_request demo_env))] p' \<and>
    sessions (shared p') ! 0 = (TCP, s') \<and> written s' = [(r, closes ref_beast r)] \<and>
    res_result r = 200 \<and> res_body r = ''hi'' \<and> framed ref_beast r"
proof -
  obtain as where run: "pool_run ref_beast (start_pool demo_world) as (start_pool demo_reading)" using demo_pool by blast
  have url: "clean_url ''/static/'' = ''/static''" by code_simp
  have fs: "fs_exists (env_fs demo_env) ''/srv'' = Inr True" "fs_is_directory (env_fs demo_env) ''/srv'' = Inr True"
    "fs_exists (env_fs demo_env) (fs_append (env_fs demo_env) ''/srv'' ''/a.html'') = Inr True"
    "fs_is_directory (env_fs demo_env) (fs_append (env_fs demo_env) ''/srv'' ''/a.html'') = Inr False"
    "fs_read (env_fs demo_env) (fs_append (env_fs demo_env) ''/srv'' ''/a.html'') = Some ''hi''"
    by (simp_all add: demo_env_def demo_fs_def)
  show ?thesis
    using static_site [OF ref_beast_laws _ demo_location(2,3,1) demo_main run _ _ demo_waiting(1,2) demo_session(1) demo_envs(1) _
        demo_location(5) _ _ _ _ fs, where th = 3 and request = demo_request] demo_waiting(3) demo_location(4)
    by (auto simp: file_root_def url drop_trailing_slash_def threads_def)
qed

theorem every_request_witness:
  "\<exists>p' s'. thread_run ref_beast 1 (start_pool demo_reading)
      [Take 1 (OnSession 0 (ReadDone None (demo_request\<lparr>req_target := ''/''\<rparr>) demo_env)),
       Done 1 (OnSession 0 (ReadDone None (demo_request\<lparr>req_target := ''/''\<rparr>) demo_env))] p' \<and>
    sessions (shared p') ! 0 = (TCP, s') \<and> map fst (written s') = [not_found_error ref_beast]"
proof -
  obtain as where run: "pool_run ref_beast (start_pool demo_world) as (start_pool demo_reading)" using demo_pool by blast
  have "strip_query ''/'' = Inr ''/''" by (rule strip_query_none) simp
  moreover have "\<not> location_for demo_config ''/'' l" for l
    by (auto simp: location_for_def demo_locations url_matches_def)
  ultimately show ?thesis
    using every_request [OF _ demo_location(2,3,1) demo_main run _ _ demo_waiting(1,2) demo_session(1) demo_envs(1), where th = 1
        and request = "demo_request\<lparr>req_target := ''/''\<rparr>"] demo_waiting(3)
    by (fastforce simp: Let_def threads_def)
qed

text \<open>
  C15: Every response a server without proxy sends can be read by its client: in every state that is
  reached, each response of each session has status 200, 400, 404 or 500 and a \<open>Content-Length\<close> that
  is the length of its body; the stream of a session is shut down exactly if the last callback that
  ended for it was told of the end of the client's stream or of the write of a response that says
  \<open>Connection: close\<close> or needs the end of the stream, and no response before the last one does.
\<close>

theorem responses_readable:
  assumes "beast_laws B" and "serve_forever f cs api https_api c g = Inr (Running w)"
    and "pool_run B (start_pool w) as p" and "no_proxy (server_table (srv w))"
    and "i < length (sessions (shared p))" and "sessions (shared p) ! i = (t, s)"
  shows "(\<forall>(r, ends) \<in> set (written s). framed B r \<and> res_result r \<in> {200, 400, 404, 500}) \<and>
    shut s = (if ended B (done_events i as) (map fst (written s)) then Some (kind_of t) else None) \<and>
    (\<forall>(r, ends) \<in> set (butlast (written s)). \<not> closes B r)"
  using pool_well_sent [OF assms(1,4) served_pool_ok(1) [OF assms(2,3)] assms(5,6)]
  by (auto simp: well_sent_def readable_def statuses_def)

theorem responses_readable_witness:
  "\<exists>as p r. pool_run ref_beast (start_pool demo_world) as p \<and>
     map fst (written (snd (sessions (shared p) ! 0))) = [r] \<and> framed ref_beast r"
proof -
  let ?s = "snd (hd (sessions demo_reading))"
  obtain as where run: "pool_run ref_beast (start_pool demo_world) as (start_pool demo_reading)" using demo_pool by blast
  obtain r where r: "handle_request ref_beast demo_env (glob demo_reading) (File demo_file_handler) demo_request = Inr r"
    using demo_file(1) [of ref_beast] by (auto simp: demo_env_def)
  have "find_handler (oob demo_env) (urlToHandler ?s) (req_target demo_request) = Inr (''/static'', Some (File demo_file_handler))"
    using demo_session demo_routed by (simp add: demo_env_def)
  from answer_run [OF _ _ demo_waiting(1,2) demo_session(1) demo_envs(1) this, of 0 ref_beast r] r demo_waiting(3)
  obtain s2 where run2: "pool_run ref_beast (start_pool demo_reading)
      [Take 0 (OnSession 0 (ReadDone None demo_request demo_env)), Handled 0, Done 0 (OnSession 0 (ReadDone None demo_request demo_env))]
      ((start_pool demo_reading)\<lparr>shared := (set_session 0 TCP s2 demo_reading)\<lparr>glob :=
        record_url (record_time demo_env) demo_request r (glob demo_reading)\<rparr>\<rparr>)" (is "pool_run _ _ _ ?p")
    and s2: "map fst (written s2) = [sent ref_beast (File demo_file_handler) r]"
    by (auto simp: answer_actions_def with_copy_other thread_run_def)
  have p: "sessions (shared ?p) ! 0 = (TCP, s2)" "0 < length (sessions (shared ?p))"
    using demo_first(2) by simp_all
  have "no_proxy (server_table (srv demo_world))" by (simp add: no_proxy_def demo_world_def)
  from responses_readable [OF ref_beast_laws demo_serves pool_run_append [OF run2 run] this p(2,1)]
  have "\<forall>x \<in> set (written s2). framed ref_beast (fst x)" by auto
  with s2 have "framed ref_beast (sent ref_beast (File demo_file_handler) r)" by auto
  with s2 p(1) pool_run_append [OF run2 run] show ?thesis by (metis snd_conv)
qed


end
